theory Spec2Isabelle
  imports Main "HOL-Library.Word" "HOL-Library.Sublist"
begin

section \<open>JavaScript strings\<close>

text \<open>
  A JavaScript string is a sequence of UTF-16 code units; \<open>length\<close>, \<open>substring\<close>,
  \<open>lastIndexOf\<close>, \<open>includes\<close> and regular expressions without the \<open>u\<close> flag all
  work on code units. A character outside the Basic Multilingual Plane is a surrogate
  pair: two code units.
\<close>

type_synonym jschar = "16 word"
type_synonym jsstring = "jschar list"

definition js :: "string \<Rightarrow> jsstring" where
  \<comment> \<open>An ASCII literal of the source, as code units.\<close>
  "js s = map of_char s"

definition isWhiteSpace :: "jschar \<Rightarrow> bool" where
  \<comment> \<open>ECMAScript WhiteSpace and LineTerminator: what \<open>trim\<close> strips and \<open>\s\<close> matches.\<close>
  "isWhiteSpace c \<longleftrightarrow>
     c = 0x09 \<or> c = 0x0A \<or> c = 0x0B \<or> c = 0x0C \<or> c = 0x0D \<or> c = 0x20 \<or> c = 0xA0 \<or>
     c = 0x1680 \<or> (0x2000 \<le> c \<and> c \<le> 0x200A) \<or> c = 0x2028 \<or> c = 0x2029 \<or>
     c = 0x202F \<or> c = 0x205F \<or> c = 0x3000 \<or> c = 0xFEFF"

definition trimStart :: "jsstring \<Rightarrow> jsstring" where
  "trimStart s = dropWhile isWhiteSpace s"

definition trimEnd :: "jsstring \<Rightarrow> jsstring" where
  "trimEnd s = rev (dropWhile isWhiteSpace (rev s))"

definition trim :: "jsstring \<Rightarrow> jsstring" where
  "trim s = trimEnd (trimStart s)"

function numToString :: "nat \<Rightarrow> jsstring" where
  \<comment> \<open>The decimal digits of a non-negative integer, as a template literal prints it.\<close>
  "numToString n =
     (if n < 10 then [0x30 + of_nat n]
      else numToString (n div 10) @ [0x30 + of_nat (n mod 10)])"
  by pat_completeness auto
termination
  by (relation "measure id") auto

declare numToString.simps [simp del]

definition isHighSurrogate :: "jschar \<Rightarrow> bool" where
  "isHighSurrogate c \<longleftrightarrow> 0xD800 \<le> c \<and> c \<le> 0xDBFF"

definition isLowSurrogate :: "jschar \<Rightarrow> bool" where
  "isLowSurrogate c \<longleftrightarrow> 0xDC00 \<le> c \<and> c \<le> 0xDFFF"

section \<open>Notification dispatcher\<close>

text \<open>
  \<open>NotificationDispatcher\<close> of \<open>auth-integration.service.ts\<close>. Redis is modelled by
  the two structures the dispatcher keeps there: the list \<open>notification_queue\<close> and the
  keys \<open>notification_batch:userId\<close>, each stored with its expiry time. The clock
  (\<open>Date.now()\<close>) and the fresh id (\<open>uuidv4()\<close>) are parameters. The outcome of the
  k-th call of \<open>whatsappSender.sendMessage\<close> is \<open>ok k\<close>; every call is recorded in
  \<open>sent\<close>. The opaque \<open>metadata\<close> field is left out: the dispatcher never reads it.
\<close>

datatype NotificationType = BUILD_COMPLETE | ERROR | GIT_OPERATION | FILE_CHANGED

datatype NotificationPriority = LOW | MEDIUM | HIGH | URGENT

record Notification =
  n_id :: jsstring
  n_userId :: jsstring
  n_phoneNumber :: jsstring
  n_type :: NotificationType
  n_priority :: NotificationPriority
  n_title :: jsstring
  n_message :: jsstring
  n_timestamp :: int

record BatchedNotifications =
  b_userId :: jsstring
  b_phoneNumber :: jsstring
  b_notifications :: "Notification list"
  b_batchedAt :: int

record NotificationQueueItem =
  q_notification :: Notification
  q_retryCount :: nat
  q_scheduledAt :: int

record Dispatcher =
  queue :: "NotificationQueueItem list"
  batchStore :: "jsstring \<rightharpoonup> (BatchedNotifications \<times> int)"
  batchTimers :: "jsstring \<rightharpoonup> int"
  isProcessing :: bool
  sent :: "(jsstring \<times> jsstring) list"

definition BATCH_WINDOW_MS :: int where "BATCH_WINDOW_MS = 30000"
definition RETRY_DELAY_MS :: int where "RETRY_DELAY_MS = 5000"

definition newDispatcher :: Dispatcher where
  "newDispatcher =
     \<lparr>queue = [], batchStore = Map.empty, batchTimers = Map.empty,
      isProcessing = False, sent = []\<rparr>"

definition redisGet :: "int \<Rightarrow> ('k \<rightharpoonup> ('v \<times> int)) \<Rightarrow> 'k \<Rightarrow> 'v option" where
  \<comment> \<open>\<open>GET\<close> of a key stored by \<open>SETEX\<close>: gone once its expiry time is reached.\<close>
  "redisGet now store k =
     (case store k of
        None \<Rightarrow> None
      | Some (v, expiry) \<Rightarrow> if now < expiry then Some v else None)"

definition getEmojiForType :: "NotificationType \<Rightarrow> jsstring" where
  \<comment> \<open>U+2705, U+274C, U+1F500, U+1F4DD as UTF-16. The \<open>default\<close> branch of the source
      (U+1F514) is unreachable for a value of the enum.\<close>
  "getEmojiForType t =
     (case t of
        BUILD_COMPLETE \<Rightarrow> [0x2705]
      | ERROR \<Rightarrow> [0x274C]
      | GIT_OPERATION \<Rightarrow> [0xD83D, 0xDD00]
      | FILE_CHANGED \<Rightarrow> [0xD83D, 0xDCDD])"

definition formatSingleNotification :: "Notification \<Rightarrow> jsstring" where
  "formatSingleNotification n =
     getEmojiForType (n_type n) @ js '' *'' @ n_title n @ js ''*'' @ [0x0A, 0x0A] @ n_message n"

fun formatLoop :: "nat \<Rightarrow> Notification list \<Rightarrow> jsstring \<Rightarrow> jsstring" where
  \<comment> \<open>The \<open>for\<close> loop of \<open>formatBatchedNotifications\<close>, from index \<open>i\<close> on.\<close>
  "formatLoop i [] message = message"
| "formatLoop i (n # ns) message =
     formatLoop (Suc i) ns
       (message @ numToString (i + 1) @ js ''. '' @ getEmojiForType (n_type n) @ js '' *'' @
          n_title n @ js ''*'' @ [0x0A] @ js ''   '' @ n_message n @ [0x0A, 0x0A])"

definition formatBatchedNotifications :: "BatchedNotifications \<Rightarrow> jsstring" where
  "formatBatchedNotifications batch =
     (case b_notifications batch of
        [n] \<Rightarrow> formatSingleNotification n
      | ns \<Rightarrow>
          trim (formatLoop 0 ns
            ([0xD83D, 0xDD14] @ js '' *'' @ numToString (length ns) @
             js '' Workspace Updates*'' @ [0x0A, 0x0A])))"

definition sendMessage ::
  "(nat \<Rightarrow> bool) \<Rightarrow> jsstring \<Rightarrow> jsstring \<Rightarrow> Dispatcher \<Rightarrow> bool \<times> Dispatcher" where
  \<comment> \<open>\<open>whatsappSender.sendMessage\<close>: never throws, returns whether delivery succeeded.\<close>
  "sendMessage ok phoneNumber message d =
     (ok (length (sent d)), d\<lparr>sent := sent d @ [(phoneNumber, message)]\<rparr>)"

definition requeueNotification :: "int \<Rightarrow> Notification \<Rightarrow> Dispatcher \<Rightarrow> Dispatcher" where
  "requeueNotification now n d =
     d\<lparr>queue := queue d @
        [\<lparr>q_notification = n, q_retryCount = 0, q_scheduledAt = now + RETRY_DELAY_MS\<rparr>]\<rparr>"

definition addToBatch :: "int \<Rightarrow> jsstring \<Rightarrow> Notification \<Rightarrow> Dispatcher \<Rightarrow> Dispatcher" where
  "addToBatch now userId n d =
     (let notifications =
            (case redisGet now (batchStore d) userId of
               None \<Rightarrow> []
             | Some batch \<Rightarrow> b_notifications batch) @ [n];
          batch = \<lparr>b_userId = userId, b_phoneNumber = n_phoneNumber n,
                   b_notifications = notifications, b_batchedAt = now\<rparr>;
          d1 = d\<lparr>batchStore := (batchStore d)(userId \<mapsto> (batch, now + BATCH_WINDOW_MS))\<rparr>
      in if userId \<in> dom (batchTimers d1) then d1
         else d1\<lparr>batchTimers := (batchTimers d1)(userId \<mapsto> now + BATCH_WINDOW_MS)\<rparr>)"

definition queueNotification ::
  "jsstring \<Rightarrow> int \<Rightarrow> jsstring \<Rightarrow> jsstring \<Rightarrow> NotificationType \<Rightarrow> jsstring \<Rightarrow> jsstring \<Rightarrow>
   NotificationPriority \<Rightarrow> Dispatcher \<Rightarrow> jsstring \<times> Dispatcher" where
  \<comment> \<open>\<open>uuid\<close> is the value of \<open>uuidv4()\<close>, \<open>now\<close> the clock.\<close>
  "queueNotification uuid now userId phoneNumber type title message priority d =
     (let notification =
            \<lparr>n_id = uuid, n_userId = userId, n_phoneNumber = phoneNumber, n_type = type,
             n_priority = priority, n_title = title, n_message = message, n_timestamp = now\<rparr>;
          queueItem = \<lparr>q_notification = notification, q_retryCount = 0, q_scheduledAt = now\<rparr>;
          d1 = d\<lparr>queue := queue d @ [queueItem]\<rparr>
      in (uuid, addToBatch now userId notification d1))"

definition processBatch :: "(nat \<Rightarrow> bool) \<Rightarrow> int \<Rightarrow> jsstring \<Rightarrow> Dispatcher \<Rightarrow> Dispatcher" where
  \<comment> \<open>The batch timer's callback (also run by \<open>cleanup\<close>).\<close>
  "processBatch ok now userId d =
     (case redisGet now (batchStore d) userId of
        None \<Rightarrow> d
      | Some batch \<Rightarrow>
          (let d1 = d\<lparr>batchStore := (batchStore d)(userId := None),
                      batchTimers := (batchTimers d)(userId := None)\<rparr>;
               (success, d2) = sendMessage ok (b_phoneNumber batch)
                                 (formatBatchedNotifications batch) d1
           in if success then d2
              else fold (requeueNotification now) (b_notifications batch) d2))"

definition sendImmediately :: "(nat \<Rightarrow> bool) \<Rightarrow> int \<Rightarrow> Notification \<Rightarrow> Dispatcher \<Rightarrow> Dispatcher" where
  "sendImmediately ok now n d =
     (let (success, d1) = sendMessage ok (n_phoneNumber n) (formatSingleNotification n) d
      in if success then d1 else requeueNotification now n d1)"

definition processItem ::
  "(nat \<Rightarrow> bool) \<Rightarrow> int \<Rightarrow> NotificationQueueItem \<Rightarrow> Dispatcher \<Rightarrow> Dispatcher" where
  \<comment> \<open>The body of the drain loop after \<open>lPop\<close> returned \<open>item\<close>.\<close>
  "processItem ok now item d =
     (if n_priority (q_notification item) = URGENT
      then sendImmediately ok now (q_notification item) d
      else d)"

fun drain :: "nat \<Rightarrow> (nat \<Rightarrow> bool) \<Rightarrow> int \<Rightarrow> Dispatcher \<Rightarrow> Dispatcher option" where
  \<comment> \<open>\<open>while (true)\<close> of \<open>processQueue\<close>, with fuel: a failed urgent send puts the item
      back at the end of the same queue, so the loop need not end. \<open>None\<close>: out of fuel.\<close>
  "drain fuel ok now d =
     (case queue d of
        [] \<Rightarrow> Some d
      | item # rest \<Rightarrow>
          (case fuel of
             0 \<Rightarrow> None
           | Suc k \<Rightarrow> drain k ok now (processItem ok now item (d\<lparr>queue := rest\<rparr>))))"

declare drain.simps [simp del]

definition processQueue :: "nat \<Rightarrow> (nat \<Rightarrow> bool) \<Rightarrow> int \<Rightarrow> Dispatcher \<Rightarrow> Dispatcher option" where
  "processQueue fuel ok now d =
     (if isProcessing d then Some d
      else map_option (\<lambda>d'. d'\<lparr>isProcessing := False\<rparr>)
             (drain fuel ok now (d\<lparr>isProcessing := True\<rparr>)))"


definition batchHeader :: "nat \<Rightarrow> jsstring" where
  \<comment> \<open>The specification's header line of a batch of \<open>k\<close> notifications (U+1F514 first).\<close>
  "batchHeader k = [0xD83D, 0xDD14] @ js '' *'' @ numToString k @ js '' Workspace Updates*''"

definition batchEntry :: "nat \<Rightarrow> Notification \<Rightarrow> jsstring" where
  \<comment> \<open>The specification's numbered entry: index, dot, icon, starred title, newline,
      three spaces, body.\<close>
  "batchEntry i n =
     numToString i @ js ''. '' @ getEmojiForType (n_type n) @ js '' *'' @ n_title n @
     js ''*'' @ [0x0A] @ js ''   '' @ n_message n"

definition spec_batch_message :: "Notification list \<Rightarrow> jsstring" where
  \<comment> \<open>The specification's numbered list: the header, then entry \<open>i\<close> of the 1-indexed
      list for each notification in order, each after a blank line.\<close>
  "spec_batch_message ns =
     batchHeader (length ns) @
     concat (map (\<lambda>(i, n). [0x0A, 0x0A] @ batchEntry i n) (zip [1 ..< Suc (length ns)] ns))"

abbreviation (input) mkNotification ::
  "NotificationType \<Rightarrow> NotificationPriority \<Rightarrow> string \<Rightarrow> string \<Rightarrow> Notification" where
  "mkNotification t p title body \<equiv>
     \<lparr>n_id = js ''id'', n_userId = js ''u1'', n_phoneNumber = js ''555'', n_type = t,
      n_priority = p, n_title = js title, n_message = js body, n_timestamp = 0\<rparr>"

section \<open>Circuit breaker\<close>

text \<open>
  \<open>CircuitBreaker\<close> of the resilience layer. Times are milliseconds. The thresholds
  are counts (\<open>nat\<close>); the observer callbacks (\<open>onStateChange\<close>, \<open>onCircuitOpen\<close>,
  \<open>onCircuitClose\<close>) and logging do not touch the breaker and are left out.
  \<open>resetTimer\<close> is the time at which the pending \<open>setTimeout\<close> of \<open>scheduleReset\<close>
  fires, if one is pending.
\<close>

datatype CircuitState = CLOSED | OPEN | HALF_OPEN

record CircuitBreakerOptions =
  failureThreshold :: nat
  successThreshold :: nat
  timeout :: int
  resetTimeout :: int

record CircuitBreaker =
  cb_state :: CircuitState
  failureCount :: nat
  successCount :: nat
  lastFailureTime :: "int option"
  lastSuccessTime :: "int option"
  nextAttemptTime :: "int option"
  totalRequests :: nat
  totalFailures :: nat
  totalSuccesses :: nat
  resetTimer :: "int option"



definition transitionTo :: "CircuitState \<Rightarrow> CircuitBreaker \<Rightarrow> CircuitBreaker" where
  "transitionTo newState cb = (if cb_state cb = newState then cb else cb\<lparr>cb_state := newState\<rparr>)"

definition scheduleNextAttempt ::
  "CircuitBreakerOptions \<Rightarrow> int \<Rightarrow> CircuitBreaker \<Rightarrow> CircuitBreaker" where
  "scheduleNextAttempt opts now cb = cb\<lparr>nextAttemptTime := Some (now + timeout opts)\<rparr>"

definition clearResetTimer :: "CircuitBreaker \<Rightarrow> CircuitBreaker" where
  "clearResetTimer cb = cb\<lparr>resetTimer := None\<rparr>"

definition scheduleReset ::
  "CircuitBreakerOptions \<Rightarrow> int \<Rightarrow> CircuitBreaker \<Rightarrow> CircuitBreaker" where
  "scheduleReset opts now cb =
     (clearResetTimer cb)\<lparr>resetTimer := Some (now + resetTimeout opts)\<rparr>"

definition reset :: "CircuitBreaker \<Rightarrow> CircuitBreaker" where
  "reset cb = clearResetTimer (cb\<lparr>failureCount := 0, successCount := 0, nextAttemptTime := None\<rparr>)"

definition runTimers :: "int \<Rightarrow> CircuitBreaker \<Rightarrow> CircuitBreaker" where
  \<comment> \<open>The callback of \<open>scheduleReset\<close>, run once its time has come.\<close>
  "runTimers now cb =
     (case resetTimer cb of
        None \<Rightarrow> cb
      | Some t \<Rightarrow> if t \<le> now then cb\<lparr>failureCount := 0, resetTimer := None\<rparr> else cb)"

definition onSuccess :: "CircuitBreakerOptions \<Rightarrow> int \<Rightarrow> CircuitBreaker \<Rightarrow> CircuitBreaker" where
  "onSuccess opts now cb =
     (let cb1 = cb\<lparr>lastSuccessTime := Some now, totalSuccesses := totalSuccesses cb + 1\<rparr>
      in if cb_state cb1 = HALF_OPEN then
           (let cb2 = cb1\<lparr>successCount := successCount cb1 + 1\<rparr>
            in if successCount cb2 \<ge> successThreshold opts
               then reset (transitionTo CLOSED cb2)
               else cb2)
         else if cb_state cb1 = CLOSED then clearResetTimer (cb1\<lparr>failureCount := 0\<rparr>)
         else cb1)"

definition onFailure :: "CircuitBreakerOptions \<Rightarrow> int \<Rightarrow> CircuitBreaker \<Rightarrow> CircuitBreaker" where
  "onFailure opts now cb =
     (let cb1 = cb\<lparr>lastFailureTime := Some now, totalFailures := totalFailures cb + 1,
                   failureCount := failureCount cb + 1\<rparr>
      in if cb_state cb1 = HALF_OPEN then
           scheduleNextAttempt opts now (transitionTo OPEN cb1)
         else if cb_state cb1 = CLOSED \<and> failureCount cb1 \<ge> failureThreshold opts then
           scheduleNextAttempt opts now (transitionTo OPEN cb1)
         else scheduleReset opts now cb1)"

datatype CallResult = Returned | Thrown | CircuitOpenError

record Call =
  c_start :: int
  c_ok :: bool
  c_end :: int

definition admit :: "int \<Rightarrow> CircuitBreaker \<Rightarrow> bool \<times> CircuitBreaker" where
  \<comment> \<open>\<open>execute\<close> up to the call of \<open>fn\<close>: whether \<open>fn\<close> is called, and the breaker
      at that point.\<close>
  "admit now cb =
     (let cb1 = (runTimers now cb)\<lparr>totalRequests := totalRequests (runTimers now cb) + 1\<rparr>
      in if cb_state cb1 = OPEN then
           (if (case nextAttemptTime cb1 of None \<Rightarrow> False | Some t \<Rightarrow> now < t)
            then (False, cb1)
            else (True, transitionTo HALF_OPEN cb1))
         else (True, cb1))"

definition execute ::
  "CircuitBreakerOptions \<Rightarrow> Call \<Rightarrow> CircuitBreaker \<Rightarrow> CallResult \<times> CircuitBreaker" where
  \<comment> \<open>One call of \<open>execute(fn)\<close>, started at \<open>c_start\<close>; if \<open>fn\<close> is called, its
      promise settles at \<open>c_end\<close>, fulfilled iff \<open>c_ok\<close>. Calls do not overlap.\<close>
  "execute opts c cb =
     (case admit (c_start c) cb of
        (False, cb1) \<Rightarrow> (CircuitOpenError, cb1)
      | (True, cb1) \<Rightarrow>
          (if c_ok c then (Returned, onSuccess opts (c_end c) (runTimers (c_end c) cb1))
           else (Thrown, onFailure opts (c_end c) (runTimers (c_end c) cb1))))"

fun executeAll :: "CircuitBreakerOptions \<Rightarrow> Call list \<Rightarrow> CircuitBreaker \<Rightarrow> CircuitBreaker" where
  "executeAll opts [] cb = cb"
| "executeAll opts (c # cs) cb = executeAll opts cs (snd (execute opts c cb))"


section \<open>Event throttle\<close>

text \<open>
  \<open>EventBroadcaster\<close> of \<open>event-broadcaster.ts\<close>. An event carries the timestamp its
  emitter gave it; \<open>shouldThrottle\<close> and \<open>updateThrottleState\<close> each read the clock
  (\<open>Date.now()\<close>), so \<open>broadcast\<close> takes both readings. The sockets are not
  modelled: \<open>broadcast\<close> returns whether the event was forwarded to the connections.
\<close>

datatype WorkspaceEventType = EV_BUILD_COMPLETE | EV_ERROR | EV_GIT_OPERATION | EV_FILE_CHANGED

record ThrottleConfig =
  enabled :: bool
  windowMs :: int
  maxEvents :: int

record WorkspaceEvent =
  e_type :: WorkspaceEventType
  e_timestamp :: int
  e_payload :: jsstring

record ThrottleState =
  events :: "WorkspaceEvent list"
  lastBroadcast :: int

record EventBroadcaster =
  throttleConfig :: "WorkspaceEventType \<rightharpoonup> ThrottleConfig"
  throttleState :: "WorkspaceEventType \<rightharpoonup> ThrottleState"

definition initializeThrottleConfig :: "WorkspaceEventType \<rightharpoonup> ThrottleConfig" where
  "initializeThrottleConfig =
     [EV_BUILD_COMPLETE \<mapsto> \<lparr>enabled = True, windowMs = 5000, maxEvents = 2\<rparr>,
      EV_ERROR \<mapsto> \<lparr>enabled = True, windowMs = 10000, maxEvents = 5\<rparr>,
      EV_GIT_OPERATION \<mapsto> \<lparr>enabled = True, windowMs = 3000, maxEvents = 3\<rparr>,
      EV_FILE_CHANGED \<mapsto> \<lparr>enabled = True, windowMs = 30000, maxEvents = 10\<rparr>]"

definition newEventBroadcaster :: EventBroadcaster where
  "newEventBroadcaster =
     \<lparr>throttleConfig = initializeThrottleConfig, throttleState = Map.empty\<rparr>"

record PartialThrottleConfig =
  p_enabled :: "bool option"
  p_windowMs :: "int option"
  p_maxEvents :: "int option"

definition updateThrottleConfig ::
  "WorkspaceEventType \<Rightarrow> PartialThrottleConfig \<Rightarrow> EventBroadcaster \<Rightarrow> EventBroadcaster" where
  "updateThrottleConfig eventType config b =
     (let currentConfig =
            (case throttleConfig b eventType of
               None \<Rightarrow> \<lparr>enabled = True, windowMs = 5000, maxEvents = 5\<rparr>
             | Some c \<Rightarrow> c)
      in b\<lparr>throttleConfig := (throttleConfig b)(eventType \<mapsto>
            \<lparr>enabled = (case p_enabled config of None \<Rightarrow> enabled currentConfig | Some x \<Rightarrow> x),
             windowMs = (case p_windowMs config of None \<Rightarrow> windowMs currentConfig | Some x \<Rightarrow> x),
             maxEvents = (case p_maxEvents config of None \<Rightarrow> maxEvents currentConfig | Some x \<Rightarrow> x)\<rparr>)\<rparr>)"

definition shouldThrottle :: "int \<Rightarrow> WorkspaceEvent \<Rightarrow> EventBroadcaster \<Rightarrow> bool" where
  "shouldThrottle now event b =
     (case throttleConfig b (e_type event) of
        None \<Rightarrow> False
      | Some config \<Rightarrow>
          if \<not> enabled config then False
          else (case throttleState b (e_type event) of
                  None \<Rightarrow> False
                | Some state \<Rightarrow>
                    if now - lastBroadcast state > windowMs config then False
                    else int (length (filter (\<lambda>e. now - e_timestamp e < windowMs config)
                                        (events state))) \<ge> maxEvents config))"

definition updateThrottleState ::
  "int \<Rightarrow> WorkspaceEvent \<Rightarrow> EventBroadcaster \<Rightarrow> EventBroadcaster" where
  "updateThrottleState now event b =
     (case throttleConfig b (e_type event) of
        None \<Rightarrow> b
      | Some config \<Rightarrow>
          if \<not> enabled config then b
          else
            (let state = (case throttleState b (e_type event) of
                            None \<Rightarrow> \<lparr>events = [], lastBroadcast = now\<rparr>
                          | Some s \<Rightarrow> s);
                 state1 = state\<lparr>events := events state @ [event], lastBroadcast := now\<rparr>;
                 state2 = state1\<lparr>events :=
                            filter (\<lambda>e. now - e_timestamp e < windowMs config) (events state1)\<rparr>
             in b\<lparr>throttleState := (throttleState b)(e_type event \<mapsto> state2)\<rparr>))"

record Arrival =
  a_checkedAt :: int
  a_updatedAt :: int
  a_event :: WorkspaceEvent

definition broadcast :: "Arrival \<Rightarrow> EventBroadcaster \<Rightarrow> bool \<times> EventBroadcaster" where
  \<comment> \<open>\<open>a_checkedAt\<close> is the clock read by \<open>shouldThrottle\<close>, \<open>a_updatedAt\<close> the clock
      read by \<open>updateThrottleState\<close> after the event went out.\<close>
  "broadcast a b =
     (if shouldThrottle (a_checkedAt a) (a_event a) b then (False, b)
      else (True, updateThrottleState (a_updatedAt a) (a_event a) b))"

fun forwarded :: "EventBroadcaster \<Rightarrow> Arrival list \<Rightarrow> (int \<times> WorkspaceEvent) list" where
  \<comment> \<open>The events a sequence of calls of \<open>broadcast\<close> forwards, each with the time of its
      call.\<close>
  "forwarded b [] = []"
| "forwarded b (a # as) =
     (case broadcast a b of
        (fwd, b1) \<Rightarrow> (if fwd then [(a_checkedAt a, a_event a)] else []) @ forwarded b1 as)"

fun spec_throttle :: "int \<Rightarrow> int \<Rightarrow> int list \<Rightarrow> (int \<times> 'e) list \<Rightarrow> (int \<times> 'e) list" where
  \<comment> \<open>The specification's algorithm for one event type, on arrivals (time, event): prune
      the window to the entries within \<open>w\<close> of now; drop the event when the pruned window
      holds \<open>m\<close> entries or more; otherwise append it to the window and forward it.\<close>
  "spec_throttle w m window [] = []"
| "spec_throttle w m window ((now, e) # rest) =
     (let pruned = filter (\<lambda>t. now - t < w) window
      in if int (length pruned) \<ge> m then spec_throttle w m pruned rest
         else (now, e) # spec_throttle w m (pruned @ [now]) rest)"

definition stamped :: "Arrival \<Rightarrow> bool" where
  \<comment> \<open>The event is broadcast at the instant of its timestamp.\<close>
  "stamped a \<longleftrightarrow> a_checkedAt a = e_timestamp (a_event a) \<and> a_updatedAt a = a_checkedAt a"

definition ofType :: "WorkspaceEventType \<Rightarrow> Arrival list \<Rightarrow> (int \<times> WorkspaceEvent) list" where
  "ofType T as =
     map (\<lambda>a. (a_checkedAt a, a_event a)) (filter (\<lambda>a. e_type (a_event a) = T) as)"

definition throttleInv ::
  "WorkspaceEventType \<Rightarrow> int \<Rightarrow> int \<Rightarrow> EventBroadcaster \<Rightarrow> int list \<Rightarrow> bool" where
  \<comment> \<open>How the throttle state of type \<open>T\<close> at time \<open>tcur\<close> stands for the
      specification's window.\<close>
  "throttleInv T w tcur b window \<longleftrightarrow>
     (case throttleState b T of
        None \<Rightarrow> window = []
      | Some s \<Rightarrow>
          lastBroadcast s \<le> tcur \<and>
          (\<forall>e \<in> set (events s). e_timestamp e \<le> lastBroadcast s) \<and>
          (\<forall>now \<ge> tcur. filter (\<lambda>t. now - t < w) (map e_timestamp (events s)) =
                         filter (\<lambda>t. now - t < w) window))"

abbreviation inWin :: "int \<Rightarrow> int \<Rightarrow> int \<Rightarrow> bool" where
  "inWin w lo t \<equiv> lo \<le> t \<and> t < lo + w"

section \<open>Commands\<close>

text \<open>
  The closed union \<open>Command\<close> of \<open>command.types.ts\<close>: each variant carries the raw
  text, then its own fields.
\<close>

datatype CommandType = FILE_READ | FILE_LIST | SEARCH | STATUS | HELP

datatype Command =
    FileReadCommand jsstring jsstring
  | FileListCommand jsstring jsstring
  | SearchCommand jsstring jsstring "jsstring option"
  | StatusCommand jsstring
  | HelpCommand jsstring

fun commandType :: "Command \<Rightarrow> CommandType" where
  "commandType (FileReadCommand raw path) = FILE_READ"
| "commandType (FileListCommand raw directory) = FILE_LIST"
| "commandType (SearchCommand raw query pattern) = SEARCH"
| "commandType (StatusCommand raw) = STATUS"
| "commandType (HelpCommand raw) = HELP"

section \<open>Workspace channel: result cache\<close>

text \<open>
  \<open>WorkspaceManagerClient.executeCommand\<close> and the handler of \<open>COMMAND_RESPONSE\<close>. The
  promise of a dispatched command is modelled by its entry in \<open>pendingCommands\<close>, which
  holds what the \<open>resolve\<close> closure captured (the command and its cache key) and the
  time its timeout fires. The Redis cache maps a key to the stored result and its
  expiry; when \<open>redisUp\<close> is false every cache operation fails and is caught, as the
  source does. \<open>emitted\<close> lists the \<open>COMMAND\<close> messages sent over the socket.
\<close>

datatype ConnectionState = DISCONNECTED | CONNECTING | CONNECTED | RECONNECTING | CONNECTION_ERROR

record CommandResult =
  r_success :: bool
  r_data :: "jsstring option"
  r_error :: "jsstring option"
  r_executionTime :: int
  r_fromCache :: bool

record PendingCommand =
  p_command :: Command
  p_cacheKey :: jsstring
  p_deadline :: int

record WorkspaceManagerClient =
  connectionState :: ConnectionState
  socketOpen :: bool
  commandTimeout :: int
  pendingCommands :: "jsstring \<rightharpoonup> PendingCommand"
  redisUp :: bool
  cache :: "jsstring \<rightharpoonup> (CommandResult \<times> int)"
  emitted :: "(jsstring \<times> Command) list"

record CommandResponsePayload =
  m_id :: jsstring
  m_success :: bool
  m_data :: "jsstring option"
  m_error :: "jsstring option"
  m_executionTime :: int

datatype ExecuteError = NotConnected | SocketNotInitialized

datatype Dispatch = CacheHit CommandResult | Sent jsstring

datatype Settled = Resolved CommandResult | Rejected jsstring | UnknownCommand

definition isConnected :: "WorkspaceManagerClient \<Rightarrow> bool" where
  "isConnected client \<longleftrightarrow> connectionState client = CONNECTED"

definition getCacheKey :: "Command \<Rightarrow> jsstring" where
  "getCacheKey command =
     (case command of
        FileReadCommand raw path \<Rightarrow> js ''file:'' @ path
      | FileListCommand raw directory \<Rightarrow> js ''list:'' @ directory
      | StatusCommand raw \<Rightarrow> js ''status:workspace''
      | _ \<Rightarrow> [])"

definition shouldCache :: "Command \<Rightarrow> bool" where
  "shouldCache command \<longleftrightarrow> commandType command = FILE_READ \<or> commandType command = FILE_LIST"

definition getFromCache :: "int \<Rightarrow> jsstring \<Rightarrow> WorkspaceManagerClient \<Rightarrow> CommandResult option" where
  "getFromCache now key client =
     (if key = [] then None
      else if \<not> redisUp client then None
      else (case redisGet now (cache client) (js ''workspace:cache:'' @ key) of
              None \<Rightarrow> None
            | Some result \<Rightarrow> Some (result\<lparr>r_fromCache := True\<rparr>)))"

definition setCache ::
  "int \<Rightarrow> jsstring \<Rightarrow> CommandResult \<Rightarrow> WorkspaceManagerClient \<Rightarrow> WorkspaceManagerClient" where
  \<comment> \<open>\<open>setEx\<close> with a time to live of 300 seconds.\<close>
  "setCache now key result client =
     (if key = [] then client
      else if \<not> redisUp client then client
      else client\<lparr>cache := (cache client)(js ''workspace:cache:'' @ key \<mapsto> (result, now + 300000))\<rparr>)"

definition executeCommand ::
  "jsstring \<Rightarrow> int \<Rightarrow> Command \<Rightarrow> WorkspaceManagerClient \<Rightarrow>
   ExecuteError + (Dispatch \<times> WorkspaceManagerClient)" where
  \<comment> \<open>\<open>commandId\<close> is the generated id, \<open>now\<close> the clock. \<open>Sent\<close>: the promise is
      pending until a response, the timeout or a disconnect settles it.\<close>
  "executeCommand commandId now command client =
     (if \<not> isConnected client then Inl NotConnected
      else if \<not> socketOpen client then Inl SocketNotInitialized
      else
        (let cacheKey = getCacheKey command
         in case getFromCache now cacheKey client of
              Some cachedResult \<Rightarrow> Inr (CacheHit cachedResult, client)
            | None \<Rightarrow>
                Inr (Sent commandId,
                     client\<lparr>pendingCommands := (pendingCommands client)(commandId \<mapsto>
                                \<lparr>p_command = command, p_cacheKey = cacheKey,
                                 p_deadline = now + commandTimeout client\<rparr>),
                            emitted := emitted client @ [(commandId, command)]\<rparr>)))"

definition handleCommandResponse ::
  "int \<Rightarrow> CommandResponsePayload \<Rightarrow> WorkspaceManagerClient \<Rightarrow> Settled \<times> WorkspaceManagerClient" where
  \<comment> \<open>The handler, followed by the \<open>resolve\<close> closure of \<open>executeCommand\<close> when the
      response reports success.\<close>
  "handleCommandResponse now message client =
     (case pendingCommands client (m_id message) of
        None \<Rightarrow> (UnknownCommand, client)
      | Some pending \<Rightarrow>
          (let client1 = client\<lparr>pendingCommands := (pendingCommands client)(m_id message := None)\<rparr>
           in if m_success message then
                (let result = \<lparr>r_success = m_success message, r_data = m_data message,
                               r_error = None, r_executionTime = m_executionTime message,
                               r_fromCache = False\<rparr>
                 in (Resolved result,
                     if r_success result \<and> shouldCache (p_command pending)
                     then setCache now (p_cacheKey pending) result client1
                     else client1))
              else
                (Rejected (case m_error message of
                             None \<Rightarrow> js ''Command execution failed''
                           | Some e \<Rightarrow> if e = [] then js ''Command execution failed'' else e),
                 client1)))"

definition connectedClient :: WorkspaceManagerClient where
  \<comment> \<open>A client after \<open>connect\<close>, with the default timeout and nothing cached.\<close>
  "connectedClient =
     \<lparr>connectionState = CONNECTED, socketOpen = True, commandTimeout = 10000,
      pendingCommands = Map.empty, redisUp = True, cache = Map.empty, emitted = []\<rparr>"

definition respondAndRepeat :: "Command \<Rightarrow> ExecuteError + (Dispatch \<times> WorkspaceManagerClient)" where
  \<comment> \<open>A scenario: the command is dispatched at time 0 by a connected client with an empty
      cache, the agent answers with success at time 50, and the same command is
      executed again at time 100.\<close>
  "respondAndRepeat command =
     (case executeCommand (js ''cmd_1'') 0 command connectedClient of
        Inl e \<Rightarrow> Inl e
      | Inr (d, client1) \<Rightarrow>
          executeCommand (js ''cmd_2'') 100 command
            (snd (handleCommandResponse 50
               \<lparr>m_id = js ''cmd_1'', m_success = True, m_data = Some (js ''data''),
                m_error = None, m_executionTime = 5\<rparr> client1)))"

section \<open>Outbound sender: chunking\<close>

text \<open>
  \<open>WhatsAppSender\<close> of \<open>whatsapp-sender.service.ts\<close>. The outcome of the k-th call of
  \<open>whatsappClient.sendMessage\<close> is \<open>ok k\<close> (it throws when \<open>ok k\<close> is false); the calls
  made so far are threaded through as a list of (phone number, text). The sleeps
  between attempts and between chunks are not modelled.
\<close>

definition MAX_MESSAGE_LENGTH :: nat where "MAX_MESSAGE_LENGTH = 4096"

primrec lastIndexOf :: "jschar \<Rightarrow> jsstring \<Rightarrow> nat \<Rightarrow> int" where
  \<comment> \<open>\<open>s.lastIndexOf(c, fromIndex)\<close>: the scan runs backwards from \<open>fromIndex\<close>.\<close>
  "lastIndexOf c s 0 = (if s \<noteq> [] \<and> s ! 0 = c then 0 else - 1)"
| "lastIndexOf c s (Suc i) =
     (if Suc i < length s \<and> s ! Suc i = c then int (Suc i) else lastIndexOf c s i)"

definition splitIndex :: "jsstring \<Rightarrow> nat" where
  \<comment> \<open>The split point the loop body finds; \<open>x > MAX_MESSAGE_LENGTH * 0.7\<close> for an
      integer \<open>x\<close> is \<open>10 * x > 7 * MAX_MESSAGE_LENGTH\<close>.\<close>
  "splitIndex remaining =
     (let lastNewline = lastIndexOf 0x0A remaining MAX_MESSAGE_LENGTH
      in if 10 * lastNewline > 7 * int MAX_MESSAGE_LENGTH then nat (lastNewline + 1)
         else (let lastSpace = lastIndexOf 0x20 remaining MAX_MESSAGE_LENGTH
               in if 10 * lastSpace > 7 * int MAX_MESSAGE_LENGTH then nat (lastSpace + 1)
                  else MAX_MESSAGE_LENGTH))"

function chunkMessage :: "jsstring \<Rightarrow> jsstring list" where
  "chunkMessage remaining =
     (if remaining = [] then []
      else if length remaining \<le> MAX_MESSAGE_LENGTH then [remaining]
      else trim (take (splitIndex remaining) remaining) #
           chunkMessage (trim (drop (splitIndex remaining) remaining)))"
  by pat_completeness auto
termination
proof (relation "measure length")
  show "wf (measure (length :: jsstring \<Rightarrow> nat))"
    by simp
next
  fix remaining :: jsstring
  assume "remaining \<noteq> []" "\<not> length remaining \<le> MAX_MESSAGE_LENGTH"
  have pos: "0 < splitIndex remaining"
    by (auto simp: splitIndex_def Let_def MAX_MESSAGE_LENGTH_def)
  have le: "length (trim xs) \<le> length xs" for xs
  proof -
    have "length (trim xs) \<le> length (trimStart xs)"
      unfolding trim_def trimEnd_def using length_dropWhile_le[of isWhiteSpace "rev (trimStart xs)"]
      by simp
    also have "\<dots> \<le> length xs"
      unfolding trimStart_def by (rule length_dropWhile_le)
    finally show ?thesis .
  qed
  have "length (trim (drop (splitIndex remaining) remaining)) \<le>
        length remaining - splitIndex remaining"
    using le[of "drop (splitIndex remaining) remaining"] by simp
  with pos \<open>remaining \<noteq> []\<close>
  show "(trim (drop (splitIndex remaining) remaining), remaining) \<in> measure length"
    by (cases remaining) auto
qed

declare chunkMessage.simps [simp del]

fun sendSingleMessage ::
  "(nat \<Rightarrow> bool) \<Rightarrow> jsstring \<Rightarrow> jsstring \<Rightarrow> nat \<Rightarrow> (jsstring \<times> jsstring) list \<Rightarrow>
   bool \<times> (jsstring \<times> jsstring) list" where
  \<comment> \<open>Up to \<open>maxAttempts\<close> attempts; true at the first one that does not throw.\<close>
  "sendSingleMessage ok phoneNumber message 0 calls = (False, calls)"
| "sendSingleMessage ok phoneNumber message (Suc k) calls =
     (if ok (length calls) then (True, calls @ [(phoneNumber, message)])
      else sendSingleMessage ok phoneNumber message k (calls @ [(phoneNumber, message)]))"

definition chunkHeader :: "nat \<Rightarrow> nat \<Rightarrow> jsstring" where
  \<comment> \<open>The header of chunk number \<open>i\<close> (counted from 0) of \<open>n\<close> chunks.\<close>
  "chunkHeader i n =
     (if n > 1 then js ''[Part '' @ numToString (i + 1) @ js ''/'' @ numToString n @ js '']'' @
                    [0x0A, 0x0A]
      else [])"

definition incompleteNotice :: "nat \<Rightarrow> nat \<Rightarrow> jsstring" where
  \<comment> \<open>The notice sent when chunk \<open>i\<close> failed; its first six code units are the ones the
      source file holds there.\<close>
  "incompleteNotice i n =
     [0x201A, 0xF6, 0x2020, 0xD4, 0x220F, 0xE8] @ js '' Message delivery incomplete. Received '' @
     numToString i @ js '' of '' @ numToString n @ js '' parts.''"

fun sendChunks ::
  "(nat \<Rightarrow> bool) \<Rightarrow> jsstring \<Rightarrow> nat \<Rightarrow> nat \<Rightarrow> nat \<Rightarrow> jsstring list \<Rightarrow>
   (jsstring \<times> jsstring) list \<Rightarrow> bool \<times> (jsstring \<times> jsstring) list" where
  \<comment> \<open>The \<open>for\<close> loop of \<open>sendChunkedMessage\<close> from index \<open>i\<close> on, \<open>n\<close> chunks in
      all, over the chunks still to send.\<close>
  "sendChunks ok phoneNumber maxAttempts n i [] calls = (True, calls)"
| "sendChunks ok phoneNumber maxAttempts n i (chunk # rest) calls =
     (case sendSingleMessage ok phoneNumber (chunkHeader i n @ chunk) maxAttempts calls of
        (True, calls1) \<Rightarrow> sendChunks ok phoneNumber maxAttempts n (Suc i) rest calls1
      | (False, calls1) \<Rightarrow>
          (False,
           if i > 0
           then snd (sendSingleMessage ok phoneNumber (incompleteNotice i n) 1 calls1)
           else calls1))"

definition sendChunkedMessage ::
  "(nat \<Rightarrow> bool) \<Rightarrow> jsstring \<Rightarrow> jsstring \<Rightarrow> nat \<Rightarrow> (jsstring \<times> jsstring) list \<Rightarrow>
   bool \<times> (jsstring \<times> jsstring) list" where
  "sendChunkedMessage ok phoneNumber message maxAttempts calls =
     (let chunks = chunkMessage message
      in sendChunks ok phoneNumber maxAttempts (length chunks) 0 chunks calls)"

definition senderSendMessage ::
  "(nat \<Rightarrow> bool) \<Rightarrow> jsstring \<Rightarrow> jsstring \<Rightarrow> bool \<Rightarrow> nat \<Rightarrow> (jsstring \<times> jsstring) list \<Rightarrow>
   bool \<times> (jsstring \<times> jsstring) list" where
  \<comment> \<open>\<open>WhatsAppSender.sendMessage\<close> with options \<open>retry\<close> and \<open>maxRetries\<close>.\<close>
  "senderSendMessage ok phoneNumber message retry maxRetries calls =
     (if length message \<le> MAX_MESSAGE_LENGTH
      then sendSingleMessage ok phoneNumber message (if retry then maxRetries else 1) calls
      else sendChunkedMessage ok phoneNumber message (if retry then maxRetries else 1) calls)"



section \<open>Regular expressions\<close>

text \<open>
  The fragment of ECMAScript regular expressions the parser and the validator use, with
  the backtracking matcher as a list of successes in priority order: the head of the
  list is the match \<open>exec\<close> finds. A match state is the text still to read and the
  capture groups set so far. Quantifiers range over a single character class, as all
  quantifiers of the source's patterns do.
\<close>

datatype Regex =
    Lit jsstring
  | One "jschar \<Rightarrow> bool"
  | Greedy "jschar \<Rightarrow> bool" nat
  | Lazy "jschar \<Rightarrow> bool" nat
  | Seq Regex Regex
  | Alt Regex Regex
  | Opt Regex
  | Group nat Regex
  | Eol

type_synonym MatchState = "jsstring \<times> (nat \<rightharpoonup> jsstring)"

definition canonicalize :: "jschar \<Rightarrow> jschar" where
  \<comment> \<open>\<open>Canonicalize\<close> of a pattern without the \<open>u\<close> flag, as far as comparing with
      an ASCII pattern character goes: ASCII letters go to upper case; a code unit from
      128 on never canonicalizes to an ASCII one, so it is left as it is.\<close>
  "canonicalize c = (if 0x61 \<le> c \<and> c \<le> 0x7A then c - 0x20 else c)"

definition litEq :: "bool \<Rightarrow> jsstring \<Rightarrow> jsstring \<Rightarrow> bool" where
  "litEq ignoreCase l t \<longleftrightarrow>
     (if ignoreCase then map canonicalize l = map canonicalize t else l = t)"

fun matches :: "bool \<Rightarrow> Regex \<Rightarrow> MatchState \<Rightarrow> MatchState list" where
  "matches ic (Lit l) (s, caps) =
     (if length l \<le> length s \<and> litEq ic l (take (length l) s)
      then [(drop (length l) s, caps)] else [])"
| "matches ic (One p) (s, caps) =
     (case s of [] \<Rightarrow> [] | c # cs \<Rightarrow> if p c then [(cs, caps)] else [])"
| "matches ic (Greedy p n) (s, caps) =
     map (\<lambda>j. (drop j s, caps)) (rev [n ..< Suc (length (takeWhile p s))])"
| "matches ic (Lazy p n) (s, caps) =
     map (\<lambda>j. (drop j s, caps)) [n ..< Suc (length (takeWhile p s))]"
| "matches ic (Seq r1 r2) st = concat (map (matches ic r2) (matches ic r1 st))"
| "matches ic (Alt r1 r2) st = matches ic r1 st @ matches ic r2 st"
| "matches ic (Opt r) st = matches ic r st @ [st]"
| "matches ic (Group i r) (s, caps) =
     map (\<lambda>(s', caps'). (s', caps'(i \<mapsto> take (length s - length s') s)))
       (matches ic r (s, caps))"
| "matches ic Eol (s, caps) = (if s = [] then [(s, caps)] else [])"

definition regexExec :: "bool \<Rightarrow> Regex \<Rightarrow> jsstring \<Rightarrow> (nat \<rightharpoonup> jsstring) option" where
  \<comment> \<open>\<open>s.match(/^r/)\<close>: the capture groups of the match at the start of \<open>s\<close>, if
      there is one. A pattern that starts with \<open>^\<close> can match nowhere else.\<close>
  "regexExec ic r s =
     (case matches ic r (s, Map.empty) of [] \<Rightarrow> None | (rest, caps) # others \<Rightarrow> Some caps)"

definition testAtStart :: "bool \<Rightarrow> Regex \<Rightarrow> jsstring \<Rightarrow> bool" where
  \<comment> \<open>\<open>/^r/.test(s)\<close>: whether there is a match at the start of \<open>s\<close>.\<close>
  "testAtStart ic r s \<longleftrightarrow>
     (case matches ic r (s, Map.empty) of [] \<Rightarrow> False | st # others \<Rightarrow> True)"

fun regexTest :: "bool \<Rightarrow> Regex \<Rightarrow> jsstring \<Rightarrow> bool" where
  \<comment> \<open>\<open>/r/.test(s)\<close> for a pattern not anchored: a match from some position of
      \<open>s\<close>.\<close>
  "regexTest ic r [] \<longleftrightarrow> testAtStart ic r []"
| "regexTest ic r (c # cs) \<longleftrightarrow> testAtStart ic r (c # cs) \<or> regexTest ic r cs"

fun seqs :: "Regex list \<Rightarrow> Regex" where
  "seqs [] = Lit []"
| "seqs [r] = r"
| "seqs (r # rs) = Seq r (seqs rs)"

fun alts :: "string list \<Rightarrow> Regex" where
  "alts [] = Lit []"
| "alts [l] = Lit (js l)"
| "alts (l # ls) = Alt (Lit (js l)) (alts ls)"

definition isDot :: "jschar \<Rightarrow> bool" where
  \<comment> \<open>The class \<open>.\<close>: anything but a line terminator.\<close>
  "isDot c \<longleftrightarrow> c \<noteq> 0x0A \<and> c \<noteq> 0x0D \<and> c \<noteq> 0x2028 \<and> c \<noteq> 0x2029"

definition isAsciiLetter :: "jschar \<Rightarrow> bool" where
  \<comment> \<open>The class \<open>[a-zA-Z]\<close>.\<close>
  "isAsciiLetter c \<longleftrightarrow> (0x61 \<le> c \<and> c \<le> 0x7A) \<or> (0x41 \<le> c \<and> c \<le> 0x5A)"

definition isSlash :: "jschar \<Rightarrow> bool" where
  \<comment> \<open>The class of backslash and slash.\<close>
  "isSlash c \<longleftrightarrow> c = 0x5C \<or> c = 0x2F"

definition isInvalidPathChar :: "jschar \<Rightarrow> bool" where
  \<comment> \<open>The class \<open>[<>:"|?*\x00-\x1F]\<close>.\<close>
  "isInvalidPathChar c \<longleftrightarrow>
     c = 0x3C \<or> c = 0x3E \<or> c = 0x3A \<or> c = 0x22 \<or> c = 0x7C \<or> c = 0x3F \<or> c = 0x2A \<or>
     c \<le> 0x1F"

section \<open>Command parser\<close>

definition PATTERN_FILE_READ :: Regex where
  "PATTERN_FILE_READ =
     seqs [alts [''read'', ''show'', ''cat'', ''file'', ''open''], Greedy isWhiteSpace 1,
           Group 1 (Greedy isDot 1), Eol]"

definition PATTERN_FILE_LIST :: Regex where
  "PATTERN_FILE_LIST =
     seqs [alts [''list'', ''ls'', ''dir'', ''files''], Greedy isWhiteSpace 0,
           Group 1 (Greedy isDot 0), Eol]"

definition PATTERN_SEARCH :: Regex where
  "PATTERN_SEARCH =
     seqs [alts [''search'', ''find'', ''grep''], Greedy isWhiteSpace 1,
           Group 1 (Lazy isDot 1),
           Opt (seqs [Greedy isWhiteSpace 1, alts [''in'', ''pattern:''], Greedy isWhiteSpace 0,
                      Group 2 (Greedy isDot 1)]),
           Eol]"

definition PATTERN_STATUS :: Regex where
  "PATTERN_STATUS = seqs [alts [''status'', ''workspace'', ''info''], Eol]"

definition PATTERN_HELP :: Regex where
  "PATTERN_HELP = seqs [alts [''help'', ''commands'', ''?''], Eol]"

record ParseResult =
  pr_success :: bool
  pr_command :: "Command option"
  pr_error :: "jsstring option"

datatype JsError = TypeError

function collapseWhiteSpace :: "jsstring \<Rightarrow> jsstring" where
  \<comment> \<open>\<open>s.replace(/\s+/g, ' ')\<close>.\<close>
  "collapseWhiteSpace [] = []"
| "collapseWhiteSpace (c # cs) =
     (if isWhiteSpace c then 0x20 # collapseWhiteSpace (dropWhile isWhiteSpace cs)
      else c # collapseWhiteSpace cs)"
  by pat_completeness auto
termination
  by (relation "measure length") (auto simp: length_dropWhile_le less_Suc_eq_le)

definition normalizeMessage :: "jsstring \<Rightarrow> jsstring" where
  "normalizeMessage message = collapseWhiteSpace (trim message)"

definition matchCommand :: "jsstring \<Rightarrow> JsError + Command option" where
  \<comment> \<open>\<open>Inl TypeError\<close>: \<open>.trim()\<close> called on a capture group that is undefined.\<close>
  "matchCommand normalized =
     (case regexExec True PATTERN_FILE_READ normalized of
        Some fileReadMatch \<Rightarrow>
          (case fileReadMatch 1 of
             None \<Rightarrow> Inl TypeError
           | Some g \<Rightarrow> Inr (Some (FileReadCommand normalized (trim g))))
      | None \<Rightarrow>
     (case regexExec True PATTERN_FILE_LIST normalized of
        Some fileListMatch \<Rightarrow>
          Inr (Some (FileListCommand normalized
            (case fileListMatch 1 of
               None \<Rightarrow> js ''.''
             | Some g \<Rightarrow> if trim g = [] then js ''.'' else trim g)))
      | None \<Rightarrow>
     (case regexExec True PATTERN_SEARCH normalized of
        Some searchMatch \<Rightarrow>
          (case searchMatch 1 of
             None \<Rightarrow> Inl TypeError
           | Some q \<Rightarrow> Inr (Some (SearchCommand normalized (trim q) (map_option trim (searchMatch 2)))))
      | None \<Rightarrow>
     (case regexExec True PATTERN_STATUS normalized of
        Some statusMatch \<Rightarrow> Inr (Some (StatusCommand normalized))
      | None \<Rightarrow>
     (case regexExec True PATTERN_HELP normalized of
        Some helpMatch \<Rightarrow> Inr (Some (HelpCommand normalized))
      | None \<Rightarrow> Inr None)))))"

definition parse :: "jsstring \<Rightarrow> JsError + ParseResult" where
  "parse message =
     (let normalized = normalizeMessage message
      in if normalized = [] then
           Inr \<lparr>pr_success = False, pr_command = None, pr_error = Some (js ''Empty message'')\<rparr>
         else
           (case matchCommand normalized of
              Inl e \<Rightarrow> Inl e
            | Inr None \<Rightarrow>
                Inr \<lparr>pr_success = False, pr_command = None,
                     pr_error = Some (js ''Unknown command. Type \"help\" to see available commands.'')\<rparr>
            | Inr (Some command) \<Rightarrow>
                Inr \<lparr>pr_success = True, pr_command = Some command, pr_error = None\<rparr>))"

definition patternOrder :: "(CommandType \<times> Regex) list" where
  \<comment> \<open>The matchers in the order the specification tries them.\<close>
  "patternOrder =
     [(FILE_READ, PATTERN_FILE_READ), (FILE_LIST, PATTERN_FILE_LIST), (SEARCH, PATTERN_SEARCH),
      (STATUS, PATTERN_STATUS), (HELP, PATTERN_HELP)]"

fun setsGroup :: "nat \<Rightarrow> Regex \<Rightarrow> bool" where
  \<comment> \<open>Every match of the pattern sets capture group \<open>i\<close>.\<close>
  "setsGroup i (Group j r) \<longleftrightarrow> i = j \<or> setsGroup i r"
| "setsGroup i (Seq r1 r2) \<longleftrightarrow> setsGroup i r1 \<or> setsGroup i r2"
| "setsGroup i (Alt r1 r2) \<longleftrightarrow> setsGroup i r1 \<and> setsGroup i r2"
| "setsGroup i r \<longleftrightarrow> False"

section \<open>Command validator\<close>

text \<open>
  \<open>CommandValidatorService\<close>. The source passes one array of messages through the
  checks and each check pushes onto it; here each check takes the list and returns it
  extended. Whether \<open>new RegExp(pattern)\<close> succeeds is a parameter (\<open>compiles\<close>): the
  grammar of the host's regular expressions is not part of the repository. The
  \<open>default\<close> branch of \<open>validate\<close> cannot be reached by a value of the union.
\<close>

definition PATH_MAX_LENGTH :: nat where "PATH_MAX_LENGTH = 500"
definition QUERY_MIN_LENGTH :: nat where "QUERY_MIN_LENGTH = 2"
definition QUERY_MAX_LENGTH :: nat where "QUERY_MAX_LENGTH = 200"
definition PATTERN_MAX_LENGTH :: nat where "PATTERN_MAX_LENGTH = 200"

definition INVALID_PATH_FORMAT :: jsstring where
  "INVALID_PATH_FORMAT = js ''Invalid path format''"
definition PATH_REQUIRED :: jsstring where
  "PATH_REQUIRED = js ''File path is required''"
definition PATH_TOO_LONG :: jsstring where
  "PATH_TOO_LONG = js ''Path exceeds maximum length of 500 characters''"
definition ABSOLUTE_PATH_NOT_ALLOWED :: jsstring where
  "ABSOLUTE_PATH_NOT_ALLOWED = js ''Absolute paths are not allowed for security reasons''"
definition PATH_TRAVERSAL_DETECTED :: jsstring where
  "PATH_TRAVERSAL_DETECTED = js ''Path traversal detected (../ is not allowed)''"
definition DIRECTORY_REQUIRED :: jsstring where
  "DIRECTORY_REQUIRED = js ''Directory path is required''"
definition INVALID_DIRECTORY_FORMAT :: jsstring where
  "INVALID_DIRECTORY_FORMAT = js ''Invalid directory format''"
definition QUERY_REQUIRED :: jsstring where
  "QUERY_REQUIRED = js ''Search query is required''"
definition QUERY_TOO_SHORT :: jsstring where
  "QUERY_TOO_SHORT = js ''Search query must be at least 2 characters''"
definition QUERY_TOO_LONG :: jsstring where
  "QUERY_TOO_LONG = js ''Search query exceeds maximum length of 200 characters''"
definition INVALID_PATTERN :: jsstring where
  "INVALID_PATTERN = js ''Invalid regex pattern''"
definition PATTERN_TOO_LONG :: jsstring where
  "PATTERN_TOO_LONG = js ''Pattern exceeds maximum length of 200 characters''"
definition UNKNOWN_COMMAND_TYPE :: jsstring where
  "UNKNOWN_COMMAND_TYPE = js ''Unknown command type''"

record ValidationResult =
  v_valid :: bool
  v_errors :: "jsstring list"

definition startsWith :: "jsstring \<Rightarrow> jsstring \<Rightarrow> bool" where
  "startsWith s p \<longleftrightarrow> take (length p) s = p"

fun stringIncludes :: "jsstring \<Rightarrow> jsstring \<Rightarrow> bool" where
  "stringIncludes [] sub \<longleftrightarrow> sub = []"
| "stringIncludes (c # cs) sub \<longleftrightarrow> startsWith (c # cs) sub \<or> stringIncludes cs sub"

definition isAbsolutePath :: "jsstring \<Rightarrow> bool" where
  "isAbsolutePath path \<longleftrightarrow>
     testAtStart False (seqs [One isAsciiLetter, Lit (js '':''), One isSlash]) path \<or>
     testAtStart False (Lit [0x5C, 0x5C]) path \<or>
     startsWith path (js ''/'')"

definition hasPathTraversal :: "jsstring \<Rightarrow> bool" where
  "hasPathTraversal path \<longleftrightarrow>
     regexTest False (Seq (Lit (js ''..'')) (One isSlash)) path \<or> stringIncludes path (js ''..'')"

definition isValidPathFormat :: "jsstring \<Rightarrow> bool" where
  "isValidPathFormat path \<longleftrightarrow> \<not> regexTest False (One isInvalidPathChar) path"

definition validatePath :: "jsstring \<Rightarrow> jsstring list \<Rightarrow> bool \<Rightarrow> jsstring list" where
  "validatePath path errors isDirectory =
     (if path = [] then errors @ [if isDirectory then DIRECTORY_REQUIRED else PATH_REQUIRED]
      else
        (let errors1 = (if length path > PATH_MAX_LENGTH then errors @ [PATH_TOO_LONG] else errors);
             errors2 = (if isAbsolutePath path then errors1 @ [ABSOLUTE_PATH_NOT_ALLOWED]
                        else errors1);
             errors3 = (if hasPathTraversal path then errors2 @ [PATH_TRAVERSAL_DETECTED]
                        else errors2)
         in if \<not> isValidPathFormat path
            then errors3 @ [if isDirectory then INVALID_DIRECTORY_FORMAT else INVALID_PATH_FORMAT]
            else errors3))"

definition validateFileReadCommand :: "jsstring \<Rightarrow> jsstring list \<Rightarrow> jsstring list" where
  "validateFileReadCommand path errors = validatePath path errors False"

definition validateFileListCommand :: "jsstring \<Rightarrow> jsstring list \<Rightarrow> jsstring list" where
  "validateFileListCommand directory errors =
     (if directory = [] then errors @ [DIRECTORY_REQUIRED]
      else validatePath directory errors True)"

definition validateSearchCommand ::
  "(jsstring \<Rightarrow> bool) \<Rightarrow> jsstring \<Rightarrow> jsstring option \<Rightarrow> jsstring list \<Rightarrow> jsstring list" where
  "validateSearchCommand compiles query pattern errors =
     (let errors1 =
            (if query = [] then errors @ [QUERY_REQUIRED]
             else
               (let e1 = (if length query < QUERY_MIN_LENGTH then errors @ [QUERY_TOO_SHORT]
                          else errors)
                in if length query > QUERY_MAX_LENGTH then e1 @ [QUERY_TOO_LONG] else e1))
      in case pattern of
           None \<Rightarrow> errors1
         | Some p \<Rightarrow>
             if p = [] then errors1
             else
               (let e2 = (if length p > PATTERN_MAX_LENGTH then errors1 @ [PATTERN_TOO_LONG]
                          else errors1)
                in if compiles p then e2 else e2 @ [INVALID_PATTERN]))"

definition validate :: "(jsstring \<Rightarrow> bool) \<Rightarrow> Command \<Rightarrow> ValidationResult" where
  "validate compiles command =
     (let errors =
            (case command of
               FileReadCommand raw path \<Rightarrow> validateFileReadCommand path []
             | FileListCommand raw directory \<Rightarrow> validateFileListCommand directory []
             | SearchCommand raw query pattern \<Rightarrow> validateSearchCommand compiles query pattern []
             | StatusCommand raw \<Rightarrow> []
             | HelpCommand raw \<Rightarrow> [])
      in \<lparr>v_valid = (errors = []), v_errors = errors\<rparr>)"

definition absolutePathForm :: "jsstring \<Rightarrow> bool" where
  \<comment> \<open>The specification's absolute forms: Unix \<open>/...\<close>, a Windows drive letter followed
      by a colon and a separator, or the two backslashes of a UNC path.\<close>
  "absolutePathForm path \<longleftrightarrow>
     (\<exists>rest. path = 0x2F # rest) \<or>
     (\<exists>d sep rest. path = d # 0x3A # sep # rest \<and> isAsciiLetter d \<and> (sep = 0x5C \<or> sep = 0x2F)) \<or>
     (\<exists>rest. path = 0x5C # 0x5C # rest)"

definition dotDotSegment :: "jsstring \<Rightarrow> bool" where
  \<comment> \<open>The specification's traversal segment: \<open>..\<close> standing between separators or the
      ends of the path.\<close>
  "dotDotSegment path \<longleftrightarrow>
     (\<exists>before after. path = before @ js ''..'' @ after \<and>
        (before = [] \<or> isSlash (last before)) \<and> (after = [] \<or> isSlash (hd after)))"




section \<open>Notification dispatcher: proofs\<close>

lemma formatLoop_entries:
  "formatLoop i ns message =
     message @ concat (map (\<lambda>(j, n). batchEntry j n @ [0x0A, 0x0A]) (List.enumerate (Suc i) ns))"
  by (induction ns arbitrary: i message) (simp_all add: batchEntry_def)

lemma concat_sep_shift:
  "s @ concat (map (\<lambda>x. f x @ s) xs) = concat (map (\<lambda>x. s @ f x) xs) @ s"
  by (induction xs) simp_all

lemma isWhiteSpace_nl: "isWhiteSpace 0x0A"
  by (simp add: isWhiteSpace_def)

lemma trimEnd_append_ws:
  "\<forall>c \<in> set ws. isWhiteSpace c \<Longrightarrow> trimEnd (xs @ ws) = trimEnd xs"
  by (simp add: trimEnd_def dropWhile_append)

lemma trimEnd_id:
  "xs \<noteq> [] \<Longrightarrow> \<not> isWhiteSpace (last xs) \<Longrightarrow> trimEnd xs = xs"
  by (cases xs rule: rev_cases) (simp_all add: trimEnd_def)

lemma trimStart_id:
  "xs \<noteq> [] \<Longrightarrow> \<not> isWhiteSpace (hd xs) \<Longrightarrow> trimStart xs = xs"
  by (cases xs) (simp_all add: trimStart_def)

lemma trim_keeps:
  assumes "xs \<noteq> []" "\<not> isWhiteSpace (hd xs)" "\<not> isWhiteSpace (last xs)"
    and "\<forall>c \<in> set ws. isWhiteSpace c"
  shows "trim (xs @ ws) = xs"
proof -
  have "trimStart (xs @ ws) = xs @ ws"
    using assms(1,2) by (intro trimStart_id) simp_all
  then show ?thesis
    using assms by (simp add: trim_def trimEnd_append_ws trimEnd_id)
qed

lemma numToString_nonempty: "numToString n \<noteq> []"
  by (subst numToString.simps) simp



lemma loop_as_list:
  "formatLoop 0 ns (batchHeader k @ [0x0A, 0x0A]) =
     (batchHeader k @ concat (map (\<lambda>(j, n). [0x0A, 0x0A] @ batchEntry j n) (List.enumerate 1 ns))) @ [0x0A, 0x0A]"
proof -
  have "(\<lambda>(j, n). batchEntry j n @ [0x0A, 0x0A]) = (\<lambda>x. (\<lambda>(j, n). batchEntry j n) x @ [0x0A, 0x0A])"
    by auto
  moreover have "(\<lambda>(j, n). [0x0A, 0x0A] @ batchEntry j n) = (\<lambda>x. [0x0A, 0x0A] @ (\<lambda>(j, n). batchEntry j n) x)"
    by auto
  ultimately show ?thesis
    using concat_sep_shift[of "[0x0A, 0x0A]" "\<lambda>(j, n). batchEntry j n" "List.enumerate 1 ns"]
    by (simp add: formatLoop_entries)
qed







lemma not_ws_bell: "\<not> isWhiteSpace 0xD83D"
  by (simp add: isWhiteSpace_def)

lemma trim_append_ws:
  assumes "xs \<noteq> []" "\<not> isWhiteSpace (hd xs)" "\<forall>c \<in> set ws. isWhiteSpace c"
  shows "trim (xs @ ws) = trim xs"
proof -
  have "trimStart (xs @ ws) = xs @ ws" "trimStart xs = xs"
    using assms(1,2) by (simp_all add: trimStart_id)
  then show ?thesis
    using assms(3) by (simp add: trim_def trimEnd_append_ws)
qed

lemma spec_batch_message_enumerate:
  "spec_batch_message ns =
     batchHeader (length ns) @
     concat (map (\<lambda>(i, n). [0x0A, 0x0A] @ batchEntry i n) (List.enumerate 1 ns))"
  by (simp add: spec_batch_message_def enumerate_eq_zip)

lemma spec_batch_message_hd:
  "spec_batch_message ns \<noteq> [] \<and> hd (spec_batch_message ns) = 0xD83D"
  by (simp add: spec_batch_message_def batchHeader_def)

lemma spec_batch_message_last:
  assumes "ns \<noteq> []" "n_message (last ns) \<noteq> []"
  shows "last (spec_batch_message ns) = last (n_message (last ns))"
proof -
  obtain xs x where ns: "ns = xs @ [x]"
    using assms(1) by (cases ns rule: rev_cases) auto
  with assms(2) have "n_message x \<noteq> []" by simp
  then show ?thesis
    by (simp add: ns spec_batch_message_enumerate enumerate_append_eq batchEntry_def)
qed

lemma formatBatched_general:
  assumes "length (b_notifications batch) \<noteq> 1"
  shows "formatBatchedNotifications batch = trim (spec_batch_message (b_notifications batch))"
proof -
  let ?ns = "b_notifications batch"
  have "formatBatchedNotifications batch =
          trim (formatLoop 0 ?ns (batchHeader (length ?ns) @ [0x0A, 0x0A]))"
    using assms
    by (auto simp: formatBatchedNotifications_def batchHeader_def split: list.splits)
  also have "\<dots> = trim (spec_batch_message ?ns @ [0x0A, 0x0A])"
    by (simp only: loop_as_list spec_batch_message_enumerate)
  also have "\<dots> = trim (spec_batch_message ?ns)"
    using spec_batch_message_hd[of ?ns] not_ws_bell
    by (intro trim_append_ws) (simp_all add: isWhiteSpace_nl)
  finally show ?thesis .
qed

text \<open>
  C6. A batch of exactly one notification is formatted in the single format
  (icon, space, starred title, blank line, body). Every other batch is the numbered
  list of the specification (header naming the count, then one 1-indexed entry per
  notification, in arrival order, each after a blank line) with surrounding whitespace
  trimmed; it is exactly that list whenever the body of the last notification is not
  empty and does not end in whitespace.
\<close>

theorem C6_batch_format:
  "(b_notifications batch = [n] \<longrightarrow>
      formatBatchedNotifications batch =
        getEmojiForType (n_type n) @ js '' *'' @ n_title n @ js ''*'' @ [0x0A, 0x0A] @
        n_message n)
   \<and> (length (b_notifications batch) \<noteq> 1 \<longrightarrow>
      formatBatchedNotifications batch = trim (spec_batch_message (b_notifications batch)))
   \<and> (1 < length (b_notifications batch) \<and> n_message (last (b_notifications batch)) \<noteq> [] \<and>
      \<not> isWhiteSpace (last (n_message (last (b_notifications batch)))) \<longrightarrow>
      formatBatchedNotifications batch = spec_batch_message (b_notifications batch))"
proof (intro conjI impI)
  assume "b_notifications batch = [n]"
  then show "formatBatchedNotifications batch =
      getEmojiForType (n_type n) @ js '' *'' @ n_title n @ js ''*'' @ [0x0A, 0x0A] @ n_message n"
    by (simp add: formatBatchedNotifications_def formatSingleNotification_def)
next
  assume "length (b_notifications batch) \<noteq> 1"
  then show "formatBatchedNotifications batch = trim (spec_batch_message (b_notifications batch))"
    by (rule formatBatched_general)
next
  let ?ns = "b_notifications batch"
  assume a: "1 < length ?ns \<and> n_message (last ?ns) \<noteq> [] \<and>
             \<not> isWhiteSpace (last (n_message (last ?ns)))"
  then have ne: "?ns \<noteq> []" by auto
  have "formatBatchedNotifications batch = trim (spec_batch_message ?ns @ [])"
    using a by (simp add: formatBatched_general)
  also have "\<dots> = spec_batch_message ?ns"
    using spec_batch_message_hd[of ?ns] spec_batch_message_last[OF ne] a not_ws_bell
    by (intro trim_keeps) simp_all
  finally show "formatBatchedNotifications batch = spec_batch_message ?ns" .
qed

theorem C6_batch_format_witness:
  "formatBatchedNotifications
     \<lparr>b_userId = js ''u1'', b_phoneNumber = js ''555'',
      b_notifications = [mkNotification ERROR HIGH ''Error Detected'' ''boom''],
      b_batchedAt = 0\<rparr> =
     [0x274C] @ js '' *Error Detected*'' @ [0x0A, 0x0A] @ js ''boom''
   \<and> formatBatchedNotifications
     \<lparr>b_userId = js ''u1'', b_phoneNumber = js ''555'',
      b_notifications = [mkNotification BUILD_COMPLETE LOW ''Build Complete'' ''ok'',
                         mkNotification GIT_OPERATION MEDIUM ''Git Operation'' ''push''],
      b_batchedAt = 0\<rparr> =
     [0xD83D, 0xDD14] @ js '' *2 Workspace Updates*'' @ [0x0A, 0x0A] @
     js ''1. '' @ [0x2705] @ js '' *Build Complete*'' @ [0x0A] @ js ''   ok'' @ [0x0A, 0x0A] @
     js ''2. '' @ [0xD83D, 0xDD00] @ js '' *Git Operation*'' @ [0x0A] @ js ''   push''"
proof -
  let ?b1 = "\<lparr>b_userId = js ''u1'', b_phoneNumber = js ''555'',
      b_notifications = [mkNotification ERROR HIGH ''Error Detected'' ''boom''],
      b_batchedAt = 0\<rparr>"
  let ?b2 = "\<lparr>b_userId = js ''u1'', b_phoneNumber = js ''555'',
      b_notifications = [mkNotification BUILD_COMPLETE LOW ''Build Complete'' ''ok'',
                         mkNotification GIT_OPERATION MEDIUM ''Git Operation'' ''push''],
      b_batchedAt = 0\<rparr>"
  have ws: "\<not> isWhiteSpace 104"
    by (simp add: isWhiteSpace_def)
  have n1: "numToString (Suc 0) = [0x31]" "numToString (Suc (Suc 0)) = [0x32]"
    by (simp_all add: numToString.simps)
  from C6_batch_format[of ?b1 "mkNotification ERROR HIGH ''Error Detected'' ''boom''"]
  have "formatBatchedNotifications ?b1 =
     [0x274C] @ js '' *Error Detected*'' @ [0x0A, 0x0A] @ js ''boom''"
    by (simp add: getEmojiForType_def js_def)
  moreover have "formatBatchedNotifications ?b2 = spec_batch_message (b_notifications ?b2)"
    by (rule C6_batch_format[of ?b2, THEN conjunct2, THEN conjunct2, THEN mp])
       (simp add: js_def ws)
  moreover have "spec_batch_message (b_notifications ?b2) =
     [0xD83D, 0xDD14] @ js '' *2 Workspace Updates*'' @ [0x0A, 0x0A] @
     js ''1. '' @ [0x2705] @ js '' *Build Complete*'' @ [0x0A] @ js ''   ok'' @ [0x0A, 0x0A] @
     js ''2. '' @ [0xD83D, 0xDD00] @ js '' *Git Operation*'' @ [0x0A] @ js ''   push''"
    by (simp add: spec_batch_message_def batchHeader_def batchEntry_def getEmojiForType_def
        js_def n1 upt_rec)
  ultimately show ?thesis by (simp only: simp_thms)
qed

theorem C6_counterexample:
  "length (b_notifications
     \<lparr>b_userId = js ''u1'', b_phoneNumber = js ''555'',
      b_notifications = [mkNotification BUILD_COMPLETE LOW ''a'' ''b'',
                         mkNotification ERROR HIGH ''c'' ''x ''],
      b_batchedAt = 0\<rparr>) = 2
   \<and> \<not> sublist (batchEntry 2 (mkNotification ERROR HIGH ''c'' ''x ''))
        (formatBatchedNotifications
          \<lparr>b_userId = js ''u1'', b_phoneNumber = js ''555'',
           b_notifications = [mkNotification BUILD_COMPLETE LOW ''a'' ''b'',
                              mkNotification ERROR HIGH ''c'' ''x ''],
           b_batchedAt = 0\<rparr>)"
  by code_simp



lemma queueNotification_joins_batch:
  "\<exists>batch expiry.
     batchStore (snd (queueNotification uuid now userId phone type title message priority d))
       userId = Some (batch, expiry) \<and> now < expiry \<and>
     last (b_notifications batch) =
       \<lparr>n_id = uuid, n_userId = userId, n_phoneNumber = phone, n_type = type,
        n_priority = priority, n_title = title, n_message = message, n_timestamp = now\<rparr>"
  by (simp add: queueNotification_def addToBatch_def Let_def BATCH_WINDOW_MS_def)

text \<open>
  C1. An URGENT notification queued one second before
  a MEDIUM one for the same recipient is put into the recipient's open batch like any
  other: the drain loop sends it at once, and the flush of the batch window sends it a
  second time, as entry 1 of the numbered list.
\<close>

theorem C1_urgent_joins_batch:
  "sent (processBatch (\<lambda>k. True) 30000 (js ''u1'')
      (the (processQueue 2 (\<lambda>k. True) 5000
        (snd (queueNotification (js ''id'') 1000 (js ''u1'') (js ''555'') GIT_OPERATION
               (js ''Git Operation'') (js ''push'') MEDIUM
          (snd (queueNotification (js ''id'') 0 (js ''u1'') (js ''555'') ERROR
                 (js ''Error Detected'') (js ''boom'') URGENT newDispatcher)))))))
   = [(js ''555'', [0x274C] @ js '' *Error Detected*'' @ [0x0A, 0x0A] @ js ''boom''),
      (js ''555'',
       [0xD83D, 0xDD14] @ js '' *2 Workspace Updates*'' @ [0x0A, 0x0A] @
       js ''1. '' @ [0x274C] @ js '' *Error Detected*'' @ [0x0A] @ js ''   boom'' @ [0x0A, 0x0A] @
       js ''2. '' @ [0xD83D, 0xDD00] @ js '' *Git Operation*'' @ [0x0A] @ js ''   push'')]"
  by code_simp

section \<open>Circuit breaker: proofs\<close>

lemma execute_fail_from_open:
  "cb_state cb = OPEN \<Longrightarrow> \<not> c_ok c \<Longrightarrow> cb_state (snd (execute opts c cb)) = OPEN"
  by (auto simp: execute_def admit_def runTimers_def onFailure_def transitionTo_def
      scheduleNextAttempt_def scheduleReset_def clearResetTimer_def Let_def
      split: option.splits)



lemma executeAll_fail_from_open:
  "cb_state cb = OPEN \<Longrightarrow> \<forall>c \<in> set cs. \<not> c_ok c \<Longrightarrow> cb_state (executeAll opts cs cb) = OPEN"
  by (induction cs arbitrary: cb) (simp_all add: execute_fail_from_open)









section \<open>Event throttle: proofs\<close>

lemma spec_throttle_times:
  "set (spec_throttle w m window xs) \<subseteq> set xs"
  by (induction w m window xs rule: spec_throttle.induct) (auto simp: Let_def)

lemma count_split:
  "length (filter P xs) = length (filter P (filter Q xs)) + length (filter P (filter (\<lambda>x. \<not> Q x) xs))"
  by (induction xs) auto

lemma window_step:
  fixes w :: int
  assumes bW: "\<And>lo. int (length (filter (inWin w lo) W)) \<le> m"
    and pr: "pruned = filter (\<lambda>t. now - t < w) W"
    and out: "\<forall>t \<in> set out. now \<le> t"
    and bP: "int (length (filter (inWin w lo) (pruned @ out))) \<le> m"
  shows "int (length (filter (inWin w lo) (W @ out))) \<le> m"
proof (cases "\<exists>t \<in> set W. \<not> now - t < w \<and> inWin w lo t")
  case True
  then obtain t where "t \<in> set W" "\<not> now - t < w" "inWin w lo t" by blast
  then have "lo + w \<le> now" by linarith
  with out have "filter (inWin w lo) out = []"
    by (auto simp: filter_empty_conv)
  then show ?thesis using bW[of lo] by simp
next
  case False
  then have "filter (inWin w lo) (filter (\<lambda>t. \<not> now - t < w) W) = []"
    by (auto simp: filter_empty_conv)
  then have "length (filter (inWin w lo) W) = length (filter (inWin w lo) pruned)"
    using count_split[of "inWin w lo" W "\<lambda>t. now - t < w"] pr by simp
  then show ?thesis using bP by simp
qed

lemma spec_throttle_bound_gen:
  fixes w m :: int
  assumes "\<And>lo. int (length (filter (inWin w lo) W)) \<le> m"
    and "sorted (W @ map fst xs)"
  shows "int (length (filter (inWin w lo) (W @ map fst (spec_throttle w m W xs)))) \<le> m"
  using assms
proof (induction w m W xs arbitrary: lo rule: spec_throttle.induct)
  case (1 w m window)
  then show ?case by simp
next
  case (2 w m window now e rest)
  let ?pruned = "filter (\<lambda>t. now - t < w) window"
  have srt: "sorted (window @ now # map fst rest)" using "2.prems"(2) by simp
  then have rest_ge: "\<forall>t \<in> set (map fst rest). now \<le> t"
    by (auto simp: sorted_append)
  have sortedP: "sorted (?pruned @ map fst rest)"
    using srt by (auto simp: sorted_append intro: sorted_wrt_filter)
  have boundP: "\<And>lo. int (length (filter (inWin w lo) ?pruned)) \<le> m"
  proof -
    fix lo
    have "length (filter (inWin w lo) ?pruned) \<le> length (filter (inWin w lo) window)"
      using count_split[of "inWin w lo" window "\<lambda>t. now - t < w"] by simp
    with "2.prems"(1)[of lo] show "int (length (filter (inWin w lo) ?pruned)) \<le> m" by linarith
  qed
  show ?case
  proof (cases "int (length ?pruned) \<ge> m")
    case True
    let ?out = "map fst (spec_throttle w m ?pruned rest)"
    have ih: "int (length (filter (inWin w lo) (?pruned @ ?out))) \<le> m"
      using "2.IH"(1)[OF refl True boundP sortedP] .
    have "\<forall>t \<in> set ?out. now \<le> t"
      using spec_throttle_times[of w m ?pruned rest] rest_ge by auto
    from window_step[OF "2.prems"(1) refl this ih]
    show ?thesis using True by (simp add: Let_def)
  next
    case False
    let ?W1 = "?pruned @ [now]"
    let ?out = "map fst (spec_throttle w m ?W1 rest)"
    have boundW1: "\<And>lo. int (length (filter (inWin w lo) ?W1)) \<le> m"
    proof -
      fix lo
      have "length (filter (inWin w lo) ?pruned) \<le> length ?pruned"
        by (rule length_filter_le)
      moreover have "length (filter (inWin w lo) ?W1) \<le> Suc (length (filter (inWin w lo) ?pruned))"
        by simp
      ultimately show "int (length (filter (inWin w lo) ?W1)) \<le> m"
        using False by linarith
    qed
    have sortedW1: "sorted (?W1 @ map fst rest)"
      using srt by (auto simp: sorted_append intro: sorted_wrt_filter)
    have ih: "int (length (filter (inWin w lo) (?W1 @ ?out))) \<le> m"
      using "2.IH"(2)[OF refl False boundW1 sortedW1] .
    have ge: "\<forall>t \<in> set (now # ?out). now \<le> t"
      using spec_throttle_times[of w m ?W1 rest] rest_ge by auto
    from ih have "int (length (filter (inWin w lo) (?pruned @ now # ?out))) \<le> m" by simp
    from window_step[OF "2.prems"(1) refl ge this]
    show ?thesis using False by (simp add: Let_def)
  qed
qed

lemma broadcast_other_type:
  assumes "e_type (a_event a) \<noteq> T"
  shows "throttleState (snd (broadcast a b)) T = throttleState b T"
    and "throttleConfig (snd (broadcast a b)) = throttleConfig b"
  using assms
  by (auto simp: broadcast_def updateThrottleState_def Let_def split: option.splits)

lemma throttleInv_other_type:
  assumes "e_type (a_event a) \<noteq> T" "throttleInv T w tcur b W" "tcur \<le> t'"
  shows "throttleInv T w t' (snd (broadcast a b)) W"
  using assms
  by (auto simp: throttleInv_def broadcast_other_type split: option.splits)

lemma filter_filter_later:
  fixes w :: int
  assumes "now \<le> now'"
  shows "filter (\<lambda>t. now' - t < w) (filter (\<lambda>t. now - t < w) xs) = filter (\<lambda>t. now' - t < w) xs"
  using assms by (induction xs) auto

lemma throttleInvI:
  assumes "throttleState b T = Some s" "lastBroadcast s \<le> tcur"
    and "\<forall>e \<in> set (events s). e_timestamp e \<le> lastBroadcast s"
    and "\<forall>now \<ge> tcur. filter (\<lambda>t. now - t < w) (map e_timestamp (events s)) =
                         filter (\<lambda>t. now - t < w) W"
  shows "throttleInv T w tcur b W"
  using assms by (simp add: throttleInv_def)

lemma broadcast_same_type:
  fixes w m :: int
  assumes cfg: "throttleConfig b T = Some c" "enabled c" "windowMs c = w" "maxEvents c = m"
    and m: "1 \<le> m"
    and inv: "throttleInv T w tcur b W"
    and a: "stamped a" "e_type (a_event a) = T" "tcur \<le> a_checkedAt a"
  shows "fst (broadcast a b) \<longleftrightarrow>
           int (length (filter (\<lambda>t. a_checkedAt a - t < w) W)) < m"
    and "throttleInv T w (a_checkedAt a) (snd (broadcast a b))
           (if int (length (filter (\<lambda>t. a_checkedAt a - t < w) W)) < m
            then filter (\<lambda>t. a_checkedAt a - t < w) W @ [a_checkedAt a]
            else filter (\<lambda>t. a_checkedAt a - t < w) W)"
    and "throttleConfig (snd (broadcast a b)) = throttleConfig b"
proof -
  let ?now = "a_checkedAt a"
  let ?pruned = "filter (\<lambda>t. ?now - t < w) W"
  have ts: "e_timestamp (a_event a) = ?now" "a_updatedAt a = ?now"
    using a(1) by (simp_all add: stamped_def)
  show cfg': "throttleConfig (snd (broadcast a b)) = throttleConfig b"
    by (auto simp: broadcast_def updateThrottleState_def Let_def split: option.splits)
  show "fst (broadcast a b) \<longleftrightarrow> int (length ?pruned) < m"
   and "throttleInv T w ?now (snd (broadcast a b))
           (if int (length ?pruned) < m then ?pruned @ [?now] else ?pruned)"
  proof (atomize (full), cases "throttleState b T")
    case None
    then have W: "W = []" using inv by (simp add: throttleInv_def)
    have "\<not> shouldThrottle ?now (a_event a) b"
      using None cfg a(2) by (simp add: shouldThrottle_def)
    then show "(fst (broadcast a b) \<longleftrightarrow> int (length ?pruned) < m) \<and>
       throttleInv T w ?now (snd (broadcast a b))
           (if int (length ?pruned) < m then ?pruned @ [?now] else ?pruned)"
      using None cfg a(2) m W ts
      by (auto simp: broadcast_def updateThrottleState_def throttleInv_def Let_def)
  next
    case (Some s)
    from inv Some have i: "lastBroadcast s \<le> tcur"
      "\<forall>e \<in> set (events s). e_timestamp e \<le> lastBroadcast s"
      "\<forall>now \<ge> tcur. filter (\<lambda>t. now - t < w) (map e_timestamp (events s)) =
                         filter (\<lambda>t. now - t < w) W"
      by (simp_all add: throttleInv_def)
    have eq: "filter (\<lambda>t. ?now - t < w) (map e_timestamp (events s)) = ?pruned"
      using i(3) a(3) by blast
    have len: "length (filter (\<lambda>e. ?now - e_timestamp e < w) (events s)) = length ?pruned"
      using arg_cong[OF eq, of length] by (simp add: filter_map comp_def)
    have far: "?now - lastBroadcast s > w \<Longrightarrow> ?pruned = []"
    proof -
      assume "?now - lastBroadcast s > w"
      with i(2) have "\<forall>e \<in> set (events s). \<not> ?now - e_timestamp e < w" by fastforce
      then have "filter (\<lambda>t. ?now - t < w) (map e_timestamp (events s)) = []"
        by (auto simp: filter_empty_conv)
      with eq show "?pruned = []" by simp
    qed
    have dec: "shouldThrottle ?now (a_event a) b \<longleftrightarrow> \<not> int (length ?pruned) < m"
      using Some cfg a(2) m far len by (auto simp: shouldThrottle_def)
    show "(fst (broadcast a b) \<longleftrightarrow> int (length ?pruned) < m) \<and>
       throttleInv T w ?now (snd (broadcast a b))
           (if int (length ?pruned) < m then ?pruned @ [?now] else ?pruned)"
    proof (cases "int (length ?pruned) < m")
      case True
      then have b': "broadcast a b = (True, updateThrottleState ?now (a_event a) b)"
        using dec ts by (simp add: broadcast_def)
      have st: "throttleState (updateThrottleState ?now (a_event a) b) T =
          Some \<lparr>events = filter (\<lambda>e. ?now - e_timestamp e < w) (events s @ [a_event a]),
                lastBroadcast = ?now\<rparr>"
        using Some cfg a(2) by (simp add: updateThrottleState_def Let_def)
      let ?s' = "\<lparr>events = filter (\<lambda>e. ?now - e_timestamp e < w) (events s @ [a_event a]),
                lastBroadcast = ?now\<rparr>"
      have ii: "\<forall>e \<in> set (events ?s'). e_timestamp e \<le> lastBroadcast ?s'"
      proof
        fix e assume "e \<in> set (events ?s')"
        then have "e \<in> set (events s) \<or> e = a_event a" by (auto split: if_splits)
        with i(1,2) a(3) ts show "e_timestamp e \<le> lastBroadcast ?s'" by fastforce
      qed
      have iii: "\<forall>now' \<ge> ?now. filter (\<lambda>t. now' - t < w) (map e_timestamp (events ?s')) =
                         filter (\<lambda>t. now' - t < w) (?pruned @ [?now])"
      proof (intro allI impI)
        fix now' assume n': "?now \<le> now'"
        then have "tcur \<le> now'" using a(3) by linarith
        with i(3) have e1: "filter (\<lambda>t. now' - t < w) (map e_timestamp (events s)) =
                         filter (\<lambda>t. now' - t < w) W" by blast
        have "filter (\<lambda>t. now' - t < w) (map e_timestamp (events ?s')) =
              filter (\<lambda>t. now' - t < w)
                (filter (\<lambda>t. ?now - t < w) (map e_timestamp (events s @ [a_event a])))"
          by (simp add: filter_map comp_def)
        also have "\<dots> = filter (\<lambda>t. now' - t < w) (map e_timestamp (events s @ [a_event a]))"
          by (rule filter_filter_later[OF n'])
        also have "\<dots> = filter (\<lambda>t. now' - t < w) W @ filter (\<lambda>t. now' - t < w) [?now]"
          using e1 ts by simp
        also have "\<dots> = filter (\<lambda>t. now' - t < w) ?pruned @ filter (\<lambda>t. now' - t < w) [?now]"
          using filter_filter_later[OF n', of w W] by simp
        finally show "filter (\<lambda>t. now' - t < w) (map e_timestamp (events ?s')) =
                         filter (\<lambda>t. now' - t < w) (?pruned @ [?now])"
          by simp
      qed
      have "throttleInv T w ?now (updateThrottleState ?now (a_event a) b) (?pruned @ [?now])"
        by (rule throttleInvI[OF st _ ii iii]) simp
      with True b' show ?thesis by simp
    next
      case False
      then have b': "broadcast a b = (False, b)"
        using dec by (simp add: broadcast_def)
      have "\<forall>now' \<ge> ?now. filter (\<lambda>t. now' - t < w) (map e_timestamp (events s)) =
                         filter (\<lambda>t. now' - t < w) ?pruned"
      proof (intro allI impI)
        fix now' assume n': "?now \<le> now'"
        then have "tcur \<le> now'" using a(3) by linarith
        with i(3) have "filter (\<lambda>t. now' - t < w) (map e_timestamp (events s)) =
                         filter (\<lambda>t. now' - t < w) W" by blast
        also have "\<dots> = filter (\<lambda>t. now' - t < w) ?pruned"
          by (rule filter_filter_later[OF n', symmetric])
        finally show "filter (\<lambda>t. now' - t < w) (map e_timestamp (events s)) =
                         filter (\<lambda>t. now' - t < w) ?pruned" .
      qed
      then have "throttleInv T w ?now b ?pruned"
        using i(1,2) a(3) by (intro throttleInvI[OF Some]) simp_all
      with False b' show ?thesis by simp
    qed
  qed
qed

lemma forwarded_refines:
  fixes w m :: int
  assumes "throttleConfig b T = Some c" "enabled c" "windowMs c = w" "maxEvents c = m"
    and "1 \<le> m"
    and "throttleInv T w tcur b W"
    and "\<forall>a \<in> set as. stamped a"
    and "sorted (tcur # map a_checkedAt as)"
  shows "filter (\<lambda>(t, e). e_type e = T) (forwarded b as) = spec_throttle w m W (ofType T as)"
  using assms
proof (induction as arbitrary: b W tcur)
  case Nil
  then show ?case by (simp add: ofType_def)
next
  case (Cons a as)
  let ?now = "a_checkedAt a"
  let ?b1 = "snd (broadcast a b)"
  have le: "tcur \<le> ?now" and srt: "sorted (?now # map a_checkedAt as)"
    using Cons.prems(8) by auto
  have st: "stamped a" "\<forall>a \<in> set as. stamped a" using Cons.prems(7) by auto
  have fw: "forwarded b (a # as) =
      (if fst (broadcast a b) then [(?now, a_event a)] else []) @ forwarded ?b1 as"
    by (simp add: case_prod_unfold)
  show ?case
  proof (cases "e_type (a_event a) = T")
    case True
    let ?pruned = "filter (\<lambda>t. ?now - t < w) W"
    let ?W1 = "if int (length ?pruned) < m then ?pruned @ [?now] else ?pruned"
    note step = broadcast_same_type[OF Cons.prems(1-6) st(1) True le]
    have cfg1: "throttleConfig ?b1 T = Some c" using step(3) Cons.prems(1) by simp
    have ih: "filter (\<lambda>(t, e). e_type e = T) (forwarded ?b1 as) = spec_throttle w m ?W1 (ofType T as)"
      by (rule Cons.IH[OF cfg1 Cons.prems(2-5) step(2) st(2) srt])
    have oT: "ofType T (a # as) = (?now, a_event a) # ofType T as"
      using True by (simp add: ofType_def)
    show ?thesis
      unfolding fw oT using step(1) ih True by (auto simp: Let_def)
  next
    case False
    have cfg1: "throttleConfig ?b1 T = Some c"
      using broadcast_other_type(2)[OF False] Cons.prems(1) by simp
    have inv1: "throttleInv T w ?now ?b1 W"
      by (rule throttleInv_other_type[OF False Cons.prems(6) le])
    have ih: "filter (\<lambda>(t, e). e_type e = T) (forwarded ?b1 as) = spec_throttle w m W (ofType T as)"
      by (rule Cons.IH[OF cfg1 Cons.prems(2-5) inv1 st(2) srt])
    have oT: "ofType T (a # as) = ofType T as"
      using False by (simp add: ofType_def)
    show ?thesis
      unfolding fw oT using ih False by simp
  qed
qed

lemma sorted_ofType:
  "sorted (map a_checkedAt as) \<Longrightarrow> sorted (map fst (ofType T as))"
proof -
  assume "sorted (map a_checkedAt as)"
  then have "sorted (map a_checkedAt (filter (\<lambda>a. e_type (a_event a) = T) as))"
    by (rule sorted_filter)
  then show ?thesis by (simp add: ofType_def comp_def)
qed

lemma throttle_refines_fresh:
  fixes w m :: int
  assumes "throttleConfig b T = Some \<lparr>enabled = True, windowMs = w, maxEvents = m\<rparr>"
    and "1 \<le> m" "throttleState b T = None"
    and "\<forall>a \<in> set as. stamped a" "sorted (map a_checkedAt as)"
  shows "filter (\<lambda>(t, e). e_type e = T) (forwarded b as) = spec_throttle w m [] (ofType T as)"
proof (cases as)
  case Nil
  then show ?thesis by (simp add: ofType_def)
next
  case (Cons a rest)
  have inv: "throttleInv T w (a_checkedAt a) b []"
    using assms(3) by (simp add: throttleInv_def)
  have "sorted (a_checkedAt a # map a_checkedAt as)"
    using assms(5) Cons by simp
  from forwarded_refines[OF assms(1) _ _ _ assms(2) inv assms(4) this]
  show ?thesis by simp
qed

lemma throttle_bound:
  fixes w m :: int
  assumes "throttleConfig b T = Some \<lparr>enabled = True, windowMs = w, maxEvents = m\<rparr>"
    and "1 \<le> m" "throttleState b T = None"
    and "\<forall>a \<in> set as. stamped a" "sorted (map a_checkedAt as)"
  shows "int (length (filter (\<lambda>(t, e). e_type e = T \<and> lo \<le> t \<and> t < lo + w) (forwarded b as))) \<le> m"
proof -
  have "filter (\<lambda>(t, e). e_type e = T \<and> lo \<le> t \<and> t < lo + w) (forwarded b as) =
        filter (\<lambda>(t, e). lo \<le> t \<and> t < lo + w) (filter (\<lambda>(t, e). e_type e = T) (forwarded b as))"
    by (auto intro: filter_cong)
  also have "\<dots> = filter (\<lambda>(t, e). lo \<le> t \<and> t < lo + w) (spec_throttle w m [] (ofType T as))"
    by (simp only: throttle_refines_fresh[OF assms])
  finally have "length (filter (\<lambda>(t, e). e_type e = T \<and> lo \<le> t \<and> t < lo + w) (forwarded b as)) =
      length (filter (inWin w lo) (map fst (spec_throttle w m [] (ofType T as))))"
    by (simp add: filter_map comp_def case_prod_unfold)
  moreover have "int (length (filter (inWin w lo) ([] @ map fst (spec_throttle w m [] (ofType T as))))) \<le> m"
    using assms(2) sorted_ofType[OF assms(5), of T]
    by (intro spec_throttle_bound_gen) simp_all
  ultimately show ?thesis by simp
qed

text \<open>
  C3. For an event type whose throttle is enabled with window \<open>w\<close> and limit
  \<open>m \<ge> 1\<close>, starting from a fresh throttle state, and for every sequence of incoming
  events that are broadcast at the instant of their timestamps, in non-decreasing time
  order: at most \<open>m\<close> events of that type are forwarded within any interval
  \<open>[lo, lo + w)\<close>, and the forwarded events of the type are exactly those the
  specification's algorithm forwards (an event arriving when the pruned window already
  holds \<open>m\<close> forwarded events is dropped, otherwise it is appended to the window and
  forwarded).
\<close>

theorem C3_throttle_bound:
  fixes w m :: int
  assumes "throttleConfig b T = Some \<lparr>enabled = True, windowMs = w, maxEvents = m\<rparr>"
    and "1 \<le> m" "throttleState b T = None"
    and "\<forall>a \<in> set as. stamped a" "sorted (map a_checkedAt as)"
  shows "int (length (filter (\<lambda>(t, e). e_type e = T \<and> lo \<le> t \<and> t < lo + w)
                       (forwarded b as))) \<le> m
       \<and> filter (\<lambda>(t, e). e_type e = T) (forwarded b as) = spec_throttle w m [] (ofType T as)"
  using throttle_bound[OF assms] throttle_refines_fresh[OF assms] by simp

theorem C3_throttle_bound_witness:
  "int (length (filter (\<lambda>(t, e). e_type e = EV_BUILD_COMPLETE \<and> 0 \<le> t \<and> t < 0 + 5000)
     (forwarded newEventBroadcaster
       [\<lparr>a_checkedAt = 0, a_updatedAt = 0,
         a_event = \<lparr>e_type = EV_BUILD_COMPLETE, e_timestamp = 0, e_payload = js ''a''\<rparr>\<rparr>,
        \<lparr>a_checkedAt = 1000, a_updatedAt = 1000,
         a_event = \<lparr>e_type = EV_BUILD_COMPLETE, e_timestamp = 1000, e_payload = js ''b''\<rparr>\<rparr>,
        \<lparr>a_checkedAt = 2000, a_updatedAt = 2000,
         a_event = \<lparr>e_type = EV_BUILD_COMPLETE, e_timestamp = 2000, e_payload = js ''c''\<rparr>\<rparr>,
        \<lparr>a_checkedAt = 5000, a_updatedAt = 5000,
         a_event = \<lparr>e_type = EV_BUILD_COMPLETE, e_timestamp = 5000, e_payload = js ''d''\<rparr>\<rparr>]))) \<le> 2
   \<and> filter (\<lambda>(t, e). e_type e = EV_BUILD_COMPLETE)
     (forwarded newEventBroadcaster
       [\<lparr>a_checkedAt = 0, a_updatedAt = 0,
         a_event = \<lparr>e_type = EV_BUILD_COMPLETE, e_timestamp = 0, e_payload = js ''a''\<rparr>\<rparr>,
        \<lparr>a_checkedAt = 1000, a_updatedAt = 1000,
         a_event = \<lparr>e_type = EV_BUILD_COMPLETE, e_timestamp = 1000, e_payload = js ''b''\<rparr>\<rparr>,
        \<lparr>a_checkedAt = 2000, a_updatedAt = 2000,
         a_event = \<lparr>e_type = EV_BUILD_COMPLETE, e_timestamp = 2000, e_payload = js ''c''\<rparr>\<rparr>,
        \<lparr>a_checkedAt = 5000, a_updatedAt = 5000,
         a_event = \<lparr>e_type = EV_BUILD_COMPLETE, e_timestamp = 5000, e_payload = js ''d''\<rparr>\<rparr>])
     = [(0, \<lparr>e_type = EV_BUILD_COMPLETE, e_timestamp = 0, e_payload = js ''a''\<rparr>),
        (1000, \<lparr>e_type = EV_BUILD_COMPLETE, e_timestamp = 1000, e_payload = js ''b''\<rparr>),
        (5000, \<lparr>e_type = EV_BUILD_COMPLETE, e_timestamp = 5000, e_payload = js ''d''\<rparr>)]"
  using C3_throttle_bound[of newEventBroadcaster EV_BUILD_COMPLETE 5000 2
      "[\<lparr>a_checkedAt = 0, a_updatedAt = 0,
         a_event = \<lparr>e_type = EV_BUILD_COMPLETE, e_timestamp = 0, e_payload = js ''a''\<rparr>\<rparr>,
        \<lparr>a_checkedAt = 1000, a_updatedAt = 1000,
         a_event = \<lparr>e_type = EV_BUILD_COMPLETE, e_timestamp = 1000, e_payload = js ''b''\<rparr>\<rparr>,
        \<lparr>a_checkedAt = 2000, a_updatedAt = 2000,
         a_event = \<lparr>e_type = EV_BUILD_COMPLETE, e_timestamp = 2000, e_payload = js ''c''\<rparr>\<rparr>,
        \<lparr>a_checkedAt = 5000, a_updatedAt = 5000,
         a_event = \<lparr>e_type = EV_BUILD_COMPLETE, e_timestamp = 5000, e_payload = js ''d''\<rparr>\<rparr>]" 0]
  by (simp add: newEventBroadcaster_def initializeThrottleConfig_def stamped_def ofType_def)

theorem C3_counterexample:
  "throttleConfig (updateThrottleConfig EV_ERROR
       \<lparr>p_enabled = None, p_windowMs = None, p_maxEvents = Some 0\<rparr> newEventBroadcaster) EV_ERROR
     = Some \<lparr>enabled = True, windowMs = 10000, maxEvents = 0\<rparr>
   \<and> forwarded (updateThrottleConfig EV_ERROR
       \<lparr>p_enabled = None, p_windowMs = None, p_maxEvents = Some 0\<rparr> newEventBroadcaster)
       [\<lparr>a_checkedAt = 0, a_updatedAt = 0,
         a_event = \<lparr>e_type = EV_ERROR, e_timestamp = 0, e_payload = js ''a''\<rparr>\<rparr>]
     = [(0, \<lparr>e_type = EV_ERROR, e_timestamp = 0, e_payload = js ''a''\<rparr>)]
   \<and> throttleConfig newEventBroadcaster EV_BUILD_COMPLETE
     = Some \<lparr>enabled = True, windowMs = 5000, maxEvents = 2\<rparr>
   \<and> forwarded newEventBroadcaster
       [\<lparr>a_checkedAt = 9000, a_updatedAt = 9000,
         a_event = \<lparr>e_type = EV_BUILD_COMPLETE, e_timestamp = 0, e_payload = js ''a''\<rparr>\<rparr>,
        \<lparr>a_checkedAt = 9001, a_updatedAt = 9001,
         a_event = \<lparr>e_type = EV_BUILD_COMPLETE, e_timestamp = 1, e_payload = js ''b''\<rparr>\<rparr>,
        \<lparr>a_checkedAt = 9002, a_updatedAt = 9002,
         a_event = \<lparr>e_type = EV_BUILD_COMPLETE, e_timestamp = 2, e_payload = js ''c''\<rparr>\<rparr>]
     = [(9000, \<lparr>e_type = EV_BUILD_COMPLETE, e_timestamp = 0, e_payload = js ''a''\<rparr>),
        (9001, \<lparr>e_type = EV_BUILD_COMPLETE, e_timestamp = 1, e_payload = js ''b''\<rparr>),
        (9002, \<lparr>e_type = EV_BUILD_COMPLETE, e_timestamp = 2, e_payload = js ''c''\<rparr>)]"
  by (simp add: newEventBroadcaster_def initializeThrottleConfig_def updateThrottleConfig_def
      broadcast_def shouldThrottle_def updateThrottleState_def Let_def)

section \<open>Workspace channel: what the code does\<close>

lemma response_to_status_leaves_cache:
  "pendingCommands client (m_id message) = Some pending \<Longrightarrow>
   p_command pending = StatusCommand raw \<Longrightarrow>
   cache (snd (handleCommandResponse now message client)) = cache client"
  by (simp add: handleCommandResponse_def shouldCache_def Let_def)

text \<open>
  C4. A STATUS command is looked up in the cache under
  the key \<open>status:workspace\<close>, but its successful result is not written there: executed
  again after a successful answer, it goes over the channel a second time. The same
  scenario with a FILE_READ command ends in a cache hit, tagged as such, with nothing
  more sent.
\<close>

theorem C4_status_result_not_cached:
  "map_sum id fst (respondAndRepeat (StatusCommand (js ''status''))) = Inr (Sent (js ''cmd_2''))
   \<and> map_sum id fst (respondAndRepeat (FileReadCommand (js ''read a.txt'') (js ''a.txt''))) =
       Inr (CacheHit \<lparr>r_success = True, r_data = Some (js ''data''), r_error = None,
                      r_executionTime = 5, r_fromCache = True\<rparr>)
   \<and> map_sum id (map fst \<circ> emitted \<circ> snd)
         (respondAndRepeat (FileReadCommand (js ''read a.txt'') (js ''a.txt''))) =
       Inr [js ''cmd_1'']"
  by code_simp

section \<open>Outbound sender: proofs\<close>

lemma lastIndexOf_absent:
  "c \<notin> set s \<Longrightarrow> lastIndexOf c s from = - 1"
proof (induction "from")
  case 0
  then show ?case by (cases s) auto
next
  case (Suc n)
  then show ?case by (auto simp: nth_mem)
qed




























section \<open>Command parser: proofs\<close>

lemma matches_keeps_group:
  "(s', caps') \<in> set (matches ic r (s, caps)) \<Longrightarrow> caps i \<noteq> None \<Longrightarrow> caps' i \<noteq> None"
proof (induction r arbitrary: s caps s' caps')
  case (Seq r1 r2)
  from Seq.prems(1) obtain s1 caps1 where
    m: "(s1, caps1) \<in> set (matches ic r1 (s, caps))" "(s', caps') \<in> set (matches ic r2 (s1, caps1))"
    by auto
  from Seq.IH(2)[OF m(2) Seq.IH(1)[OF m(1) Seq.prems(2)]] show ?case .
next
  case (Group j r)
  from Group.prems(1) obtain caps1 where
    m: "(s', caps1) \<in> set (matches ic r (s, caps))" "caps' = caps1(j \<mapsto> take (length s - length s') s)"
    by auto
  from Group.IH[OF m(1) Group.prems(2)] m(2) show ?case by simp
qed (auto split: if_splits list.splits)

lemma matches_sets_group:
  "(s', caps') \<in> set (matches ic r (s, caps)) \<Longrightarrow> setsGroup i r \<Longrightarrow> caps' i \<noteq> None"
proof (induction r arbitrary: s caps s' caps')
  case (Seq r1 r2)
  from Seq.prems(1) obtain s1 caps1 where
    m: "(s1, caps1) \<in> set (matches ic r1 (s, caps))" "(s', caps') \<in> set (matches ic r2 (s1, caps1))"
    by auto
  show ?case
  proof (cases "setsGroup i r1")
    case True
    from matches_keeps_group[OF m(2) Seq.IH(1)[OF m(1) True]] show ?thesis .
  next
    case False
    with Seq.prems(2) have "setsGroup i r2" by simp
    from Seq.IH(2)[OF m(2) this] show ?thesis .
  qed
next
  case (Alt r1 r2)
  then show ?case by auto
next
  case (Group j r)
  from Group.prems(1) obtain caps1 where
    m: "(s', caps1) \<in> set (matches ic r (s, caps))" "caps' = caps1(j \<mapsto> take (length s - length s') s)"
    by auto
  show ?case
  proof (cases "i = j")
    case True
    with m(2) show ?thesis by simp
  next
    case False
    with Group.prems(2) have "setsGroup i r" by simp
    from Group.IH[OF m(1) this] m(2) show ?thesis by simp
  qed
qed simp_all

lemma regexExec_sets_group:
  assumes "regexExec ic r s = Some caps" "setsGroup i r"
  shows "caps i \<noteq> None"
proof -
  from assms(1) obtain rest others where "matches ic r (s, Map.empty) = (rest, caps) # others"
    by (auto simp: regexExec_def split: list.splits)
  then have "(rest, caps) \<in> set (matches ic r (s, Map.empty))" by simp
  from matches_sets_group[OF this assms(2)] show ?thesis .
qed

lemma patterns_set_group_1:
  "setsGroup 1 PATTERN_FILE_READ" "setsGroup 1 PATTERN_SEARCH"
  by (simp_all add: PATTERN_FILE_READ_def PATTERN_SEARCH_def)

lemma matchCommand_total: "\<exists>c. matchCommand normalized = Inr c"
  using regexExec_sets_group[OF _ patterns_set_group_1(1), of True normalized]
        regexExec_sets_group[OF _ patterns_set_group_1(2), of True normalized]
  by (auto simp: matchCommand_def split: option.splits)

lemma matchCommand_first:
  "matchCommand normalized = Inr c \<Longrightarrow>
   map_option commandType c =
     map_option fst (find (\<lambda>(t, p). testAtStart True p normalized) patternOrder)"
  by (auto simp: matchCommand_def patternOrder_def testAtStart_def regexExec_def
      split: option.splits list.splits)

lemma no_pattern_matches_empty:
  "find (\<lambda>(t, p). testAtStart True p []) patternOrder = None"
  by (simp add: patternOrder_def testAtStart_def PATTERN_FILE_READ_def PATTERN_FILE_LIST_def
      PATTERN_SEARCH_def PATTERN_STATUS_def PATTERN_HELP_def js_def litEq_def)

text \<open>
  C8. For every input string, \<open>parse\<close> returns a result and never throws;
  the result is either a success carrying a command and no error, or a failure carrying
  an error and no command. The command is that of the first pattern, in the order
  FILE_READ, FILE_LIST, SEARCH, STATUS, HELP, that matches the normalized input. An input
  that is blank (empty once normalized) yields the error \<open>Empty message\<close>; any other
  input that matches no pattern yields the unknown-command error with its hint to type
  help.
\<close>

theorem C8_parse_total:
  "\<exists>r. parse message = Inr r
     \<and> ((pr_success r \<and> pr_command r \<noteq> None \<and> pr_error r = None) \<or>
        (\<not> pr_success r \<and> pr_command r = None \<and> pr_error r \<noteq> None))
     \<and> map_option commandType (pr_command r) =
         map_option fst (find (\<lambda>(t, p). testAtStart True p (normalizeMessage message))
                              patternOrder)
     \<and> (pr_command r = None \<longrightarrow>
         pr_error r =
           Some (if normalizeMessage message = [] then js ''Empty message''
                 else js ''Unknown command. Type \"help\" to see available commands.''))"
proof (cases "normalizeMessage message = []")
  case True
  then have "parse message =
      Inr \<lparr>pr_success = False, pr_command = None, pr_error = Some (js ''Empty message'')\<rparr>"
    by (simp add: parse_def)
  then show ?thesis
    using True no_pattern_matches_empty by simp
next
  case False
  obtain c where c: "matchCommand (normalizeMessage message) = Inr c"
    using matchCommand_total by blast
  note first = matchCommand_first[OF c]
  show ?thesis
  proof (cases c)
    case None
    then have "parse message =
      Inr \<lparr>pr_success = False, pr_command = None,
           pr_error = Some (js ''Unknown command. Type \"help\" to see available commands.'')\<rparr>"
      using False c by (simp add: parse_def)
    then show ?thesis using False first None by simp
  next
    case (Some command)
    then have "parse message =
      Inr \<lparr>pr_success = True, pr_command = Some command, pr_error = None\<rparr>"
      using False c by (simp add: parse_def)
    then show ?thesis using first Some by simp
  qed
qed

theorem C8_parse_total_witness:
  "\<exists>r. parse (js ''hello there'') = Inr r \<and> \<not> pr_success r \<and>
       pr_error r = Some (js ''Unknown command. Type \"help\" to see available commands.'')"
proof -
  have f: "map_option fst (find (\<lambda>(t, p). testAtStart True p (normalizeMessage (js ''hello there'')))
             patternOrder) = None"
    by code_simp
  have n: "normalizeMessage (js ''hello there'') = js ''hello there''"
    by code_simp
  have ne: "js ''hello there'' \<noteq> []"
    by (simp add: js_def)
  from C8_parse_total[of "js ''hello there''"] obtain r where
    r: "parse (js ''hello there'') = Inr r
     \<and> ((pr_success r \<and> pr_command r \<noteq> None \<and> pr_error r = None) \<or>
        (\<not> pr_success r \<and> pr_command r = None \<and> pr_error r \<noteq> None))
     \<and> map_option commandType (pr_command r) =
         map_option fst (find (\<lambda>(t, p). testAtStart True p (normalizeMessage (js ''hello there'')))
                              patternOrder)
     \<and> (pr_command r = None \<longrightarrow>
         pr_error r =
           Some (if normalizeMessage (js ''hello there'') = [] then js ''Empty message''
                 else js ''Unknown command. Type \"help\" to see available commands.''))" ..
  from r have r1: "parse (js ''hello there'') = Inr r" by (rule conjunct1)
  from r have r3: "map_option commandType (pr_command r) =
         map_option fst (find (\<lambda>(t, p). testAtStart True p (normalizeMessage (js ''hello there'')))
                              patternOrder)"
    by (elim conjE)
  from r have r2: "(pr_success r \<and> pr_command r \<noteq> None \<and> pr_error r = None) \<or>
        (\<not> pr_success r \<and> pr_command r = None \<and> pr_error r \<noteq> None)"
    by (elim conjE)
  from r have r4: "pr_command r = None \<longrightarrow>
         pr_error r =
           Some (if normalizeMessage (js ''hello there'') = [] then js ''Empty message''
                 else js ''Unknown command. Type \"help\" to see available commands.'')"
    by (elim conjE)
  from r3 have none: "pr_command r = None" unfolding f by simp
  with r2 have s: "\<not> pr_success r" by blast
  from r4 none have "pr_error r =
           Some (if normalizeMessage (js ''hello there'') = [] then js ''Empty message''
                 else js ''Unknown command. Type \"help\" to see available commands.'')"
    by (rule mp)
  then have "pr_error r = Some (js ''Unknown command. Type \"help\" to see available commands.'')"
    unfolding n using ne by (simp only: if_False)
  with r1 s show ?thesis by blast
qed

theorem C8_counterexample:
  "map_option fst
     (find (\<lambda>(t, p). testAtStart True p (normalizeMessage (js ''   ''))) patternOrder) = None
   \<and> parse (js ''   '') =
       Inr \<lparr>pr_success = False, pr_command = None, pr_error = Some (js ''Empty message'')\<rparr>"
  by code_simp

section \<open>Command validator: proofs\<close>

lemma startsWith_prefix: "startsWith s p \<longleftrightarrow> prefix p s"
  by (auto simp: startsWith_def prefix_def) (metis append_eq_conv_conj)

lemma includes_sublist: "stringIncludes s sub \<longleftrightarrow> sublist sub s"
  by (induction s) (auto simp: startsWith_prefix sublist_Cons_right)

lemma testAtStart_One:
  "testAtStart ic (One p) s \<longleftrightarrow> (case s of [] \<Rightarrow> False | c # cs \<Rightarrow> p c)"
  by (cases s) (simp_all add: testAtStart_def)

lemma regexTest_One: "regexTest ic (One p) s \<longleftrightarrow> (\<exists>c \<in> set s. p c)"
  by (induction s) (simp_all add: testAtStart_One)

lemma isValidPathFormat_iff: "isValidPathFormat path \<longleftrightarrow> \<not> (\<exists>c \<in> set path. isInvalidPathChar c)"
  by (simp add: isValidPathFormat_def regexTest_One)

lemma testAtStart_dotdot_slash:
  "testAtStart False (Seq (Lit (js ''..'')) (One isSlash)) s \<Longrightarrow> startsWith s (js ''..'')"
  by (auto simp: testAtStart_def startsWith_def litEq_def js_def split: if_splits list.splits)

lemma regexTest_dotdot_slash:
  "regexTest False (Seq (Lit (js ''..'')) (One isSlash)) s \<Longrightarrow> stringIncludes s (js ''..'')"
proof (induction s)
  case Nil
  then show ?case using testAtStart_dotdot_slash[of "[]"] by (simp add: startsWith_def js_def)
next
  case (Cons c cs)
  then show ?case using testAtStart_dotdot_slash[of "c # cs"] by auto
qed

lemma hasPathTraversal_iff: "hasPathTraversal path \<longleftrightarrow> sublist (js ''..'') path"
  using regexTest_dotdot_slash[of path]
  by (auto simp: hasPathTraversal_def includes_sublist)

lemma isAbsolutePath_iff: "isAbsolutePath path \<longleftrightarrow> absolutePathForm path"
proof -
  have a: "testAtStart False (seqs [One isAsciiLetter, Lit (js '':''), One isSlash]) path \<longleftrightarrow>
      (\<exists>d sep rest. path = d # 0x3A # sep # rest \<and> isAsciiLetter d \<and> (sep = 0x5C \<or> sep = 0x2F))"
  proof (cases path)
    case Nil
    then show ?thesis by (simp add: testAtStart_def)
  next
    case (Cons d r1)
    show ?thesis
    proof (cases r1)
      case Nil
      with Cons show ?thesis by (simp add: testAtStart_def js_def litEq_def)
    next
      case (Cons colon r2)
      show ?thesis
      proof (cases r2)
        case Nil
        with Cons \<open>path = d # r1\<close> show ?thesis
          by (simp add: testAtStart_def js_def litEq_def)
      next
        case (Cons sep rest)
        with \<open>r1 = colon # r2\<close> \<open>path = d # r1\<close> show ?thesis
          by (simp add: testAtStart_def js_def litEq_def isSlash_def)
      qed
    qed
  qed
  have b: "testAtStart False (Lit [0x5C, 0x5C]) path \<longleftrightarrow> (\<exists>rest. path = 0x5C # 0x5C # rest)"
  proof (cases path)
    case Nil
    then show ?thesis by (simp add: testAtStart_def)
  next
    case (Cons x r1)
    then show ?thesis
      by (cases r1) (auto simp: testAtStart_def litEq_def)
  qed
  have c: "startsWith path (js ''/'') \<longleftrightarrow> (\<exists>rest. path = 0x2F # rest)"
    by (cases path) (auto simp: startsWith_def js_def)
  show ?thesis
    unfolding isAbsolutePath_def absolutePathForm_def a b c by blast
qed

lemma validatePath_spec:
  "validatePath path [] isDirectory =
     (if path = [] then [if isDirectory then DIRECTORY_REQUIRED else PATH_REQUIRED]
      else
        (if PATH_MAX_LENGTH < length path then [PATH_TOO_LONG] else []) @
        (if absolutePathForm path then [ABSOLUTE_PATH_NOT_ALLOWED] else []) @
        (if sublist (js ''..'') path then [PATH_TRAVERSAL_DETECTED] else []) @
        (if \<exists>c \<in> set path. isInvalidPathChar c
         then [if isDirectory then INVALID_DIRECTORY_FORMAT else INVALID_PATH_FORMAT] else []))"
  by (simp add: validatePath_def Let_def isAbsolutePath_iff hasPathTraversal_iff
      isValidPathFormat_iff)



lemma traversal_reported:
  assumes "sublist (js ''..'') path"
  shows "PATH_TRAVERSAL_DETECTED \<in> set (v_errors (validate compiles (FileReadCommand raw path)))"
    and "PATH_TRAVERSAL_DETECTED \<in> set (v_errors (validate compiles (FileListCommand raw path)))"
proof -
  from assms have ne: "path \<noteq> []" by (auto simp: js_def)
  with assms show
    "PATH_TRAVERSAL_DETECTED \<in> set (v_errors (validate compiles (FileReadCommand raw path)))"
    by (simp add: validate_def validateFileReadCommand_def validatePath_spec)
  from ne assms show
    "PATH_TRAVERSAL_DETECTED \<in> set (v_errors (validate compiles (FileListCommand raw path)))"
    by (simp add: validate_def validateFileListCommand_def validatePath_spec)
qed







text \<open>
  C10. For every FileRead or FileList command whose path contains the two characters
  \<open>..\<close> anywhere, also inside a file name, validation reports PATH_TRAVERSAL_DETECTED.
\<close>

theorem C10_dotdot_anywhere:
  "sublist (js ''..'') path \<longrightarrow>
     PATH_TRAVERSAL_DETECTED \<in> set (v_errors (validate compiles (FileReadCommand raw path))) \<and>
     PATH_TRAVERSAL_DETECTED \<in> set (v_errors (validate compiles (FileListCommand raw path)))"
  using traversal_reported by blast

theorem C10_dotdot_anywhere_witness:
  "PATH_TRAVERSAL_DETECTED \<in>
     set (v_errors (validate (\<lambda>p. True) (FileReadCommand (js ''read file..txt'') (js ''file..txt''))))
   \<and> PATH_TRAVERSAL_DETECTED \<in>
     set (v_errors (validate (\<lambda>p. True) (FileListCommand (js ''ls file..txt'') (js ''file..txt''))))
   \<and> \<not> dotDotSegment (js ''file..txt'')"
proof -
  have s: "sublist (js ''..'') (js ''file..txt'')"
    by code_simp
  have nd: "\<not> dotDotSegment (js ''file..txt'')"
  proof
    assume "dotDotSegment (js ''file..txt'')"
    then obtain before after where
      e: "js ''file..txt'' = before @ js ''..'' @ after"
      and b: "before = [] \<or> isSlash (last before)"
      by (auto simp: dotDotSegment_def)
    from e have "before = js ''file''"
      by (auto simp: js_def append_eq_Cons_conv Cons_eq_append_conv)
    with b show False by (simp add: js_def isSlash_def)
  qed
  from C10_dotdot_anywhere[where path = "js ''file..txt''" and compiles = "\<lambda>p. True"
      and raw = "js ''read file..txt''"] s
  have "PATH_TRAVERSAL_DETECTED \<in>
     set (v_errors (validate (\<lambda>p. True) (FileReadCommand (js ''read file..txt'') (js ''file..txt''))))"
    by blast
  moreover from C10_dotdot_anywhere[where path = "js ''file..txt''" and compiles = "\<lambda>p. True"
      and raw = "js ''ls file..txt''"] s
  have "PATH_TRAVERSAL_DETECTED \<in>
     set (v_errors (validate (\<lambda>p. True) (FileListCommand (js ''ls file..txt'') (js ''file..txt''))))"
    by blast
  ultimately show ?thesis using nd by (simp only: simp_thms)
qed

end
